theory Spec2Isabelle
  imports Complex_Main "HOL-Library.Multiset"
begin

section \<open>Ranking and obsolescence (dashboard\_core/processing\_runs.py)\<close>

text \<open>
  A row of the DataFrame that \<open>process_runs\<close> builds. The identifier columns
  (\<open>category\<close>, \<open>level\<close>, \<open>character\<close>, \<open>player_id\<close>, \<open>note\<close>, ...) hold strings or
  null and are read by name through \<open>cell\<close>; \<open>None\<close> is pandas' null (\<open>None\<close>/\<open>NaN\<close>).
  \<open>primary_t\<close> is the duration in seconds: the code only compares durations, so they
  are taken from any linear order (the floats without \<open>NaN\<close>), and \<open>None\<close> is \<open>NaN\<close>.
  \<open>place\<close> is the nullable \<open>Int64\<close> column. A frame is the list of its rows in index
  order; the index of the frames the code builds has no duplicates, so index alignment
  of a computed column with the frame is alignment by position. The grouping columns are
  taken among the identifier columns of the frame. The pandas operations are modelled as
  pandas documents them from version 1.5 on, where a transformation over groups yields
  null at the rows whose key has a null.
\<close>

record 't run_row =
  cell :: "string \<Rightarrow> string option"
  primary_t :: "'t option"
  obsolete :: bool
  place :: "nat option"

type_synonym 't frame = "'t run_row list"

datatype rank_error = No_group_keys

subsection \<open>The pandas operations the two passes use\<close>

text \<open>The key of a row under the grouping columns \<open>keys\<close>.\<close>

definition group_key :: "string list \<Rightarrow> 't run_row \<Rightarrow> string option list" where
  "group_key keys r = map (cell r) keys"

text \<open>\<open>groupby(keys)\<close> with its default \<open>dropna=True\<close>: a row with a null in one of
  its key columns belongs to no group.\<close>

definition null_key :: "string list \<Rightarrow> 't run_row \<Rightarrow> bool" where
  "null_key keys r = (None \<in> set (group_key keys r))"

definition group_rows :: "string list \<Rightarrow> 't frame \<Rightarrow> 't run_row \<Rightarrow> 't frame" where
  "group_rows keys df r = filter (\<lambda>r'. group_key keys r' = group_key keys r) df"

fun dropna :: "'a option list \<Rightarrow> 'a list" where
  "dropna [] = []"
| "dropna (None # xs) = dropna xs"
| "dropna (Some x # xs) = x # dropna xs"

text \<open>The \<open>primary_t\<close> values of the group of \<open>r\<close>, nulls skipped.\<close>

definition group_values :: "string list \<Rightarrow> 't frame \<Rightarrow> 't run_row \<Rightarrow> 't list" where
  "group_values keys df r = dropna (map primary_t (group_rows keys df r))"

text \<open>The minimum of a column (\<open>skipna\<close>): null when no value is left.\<close>

fun series_min :: "('t::linorder) list \<Rightarrow> 't option" where
  "series_min [] = None"
| "series_min (x # xs) = Some (fold min xs x)"

text \<open>\<open>groupby(keys)["primary_t"].transform("min")\<close>, at the row \<open>r\<close> of \<open>df\<close>: the
  minimum of the group of \<open>r\<close>, and null for a row that belongs to no group.\<close>

definition transform_min :: "string list \<Rightarrow> ('t::linorder) frame \<Rightarrow> 't run_row \<Rightarrow> 't option" where
  "transform_min keys df r =
     (if null_key keys r then None else series_min (group_values keys df r))"

text \<open>Elementwise \<open>!=\<close> of two float columns: a null on either side compares unequal.\<close>

fun series_ne :: "'t option \<Rightarrow> 't option \<Rightarrow> bool" where
  "series_ne (Some a) (Some b) = (a \<noteq> b)"
| "series_ne _ _ = True"

text \<open>\<open>rank(method="min", ascending=True)\<close> of the value \<open>v\<close> among the values \<open>vs\<close> of
  its group: the values are put in ascending order and numbered from 1, and tied values
  all take the lowest number among them, which is the number of the first of them.\<close>

definition rank_min :: "('t::linorder) list \<Rightarrow> 't \<Rightarrow> nat" where
  "rank_min vs v = Suc (length (takeWhile (\<lambda>x. x \<noteq> v) (sort vs)))"

text \<open>\<open>groupby(keys)["primary_t"].rank(method="min").astype("Int64")\<close>, at the row \<open>r\<close>
  of the frame \<open>sub\<close>: null for a row outside every group and for a null duration.\<close>

definition group_rank :: "string list \<Rightarrow> ('t::linorder) frame \<Rightarrow> 't run_row \<Rightarrow> nat option" where
  "group_rank keys sub r =
     (if null_key keys r then None
      else case primary_t r of
             None \<Rightarrow> None
           | Some t \<Rightarrow> Some (rank_min (group_values keys sub r) t))"

subsection \<open>The two passes\<close>

text \<open>\<open>_mark_obsolete_runs\<close>: the cohort keys are the grouping columns followed by
  \<open>player_id\<close> and \<open>note\<close>; a row is obsolete when its duration differs from the
  minimum of its cohort.\<close>

definition mark_obsolete_runs :: "('t::linorder) frame \<Rightarrow> string list \<Rightarrow> 't frame" where
  "mark_obsolete_runs df groupby_cols =
     (let keys = groupby_cols @ [''player_id'', ''note'']
      in map (\<lambda>r. r\<lparr>obsolete := series_ne (primary_t r) (transform_min keys df r)\<rparr>) df)"

text \<open>\<open>_assign_ranking\<close>: the rows that are not obsolete are selected, ranked inside
  their groups, and the ranks are stored in \<open>place\<close> at the selected rows only.
  \<open>groupby\<close> refuses an empty list of keys on a frame that has rows
  (\<open>ValueError: No group keys passed!\<close>).\<close>

definition assign_ranking :: "('t::linorder) frame \<Rightarrow> string list \<Rightarrow> rank_error + 't frame" where
  "assign_ranking df groupby_cols =
     (let sub = filter (\<lambda>r. \<not> obsolete r) df
      in if groupby_cols = [] \<and> sub \<noteq> [] then Inl No_group_keys
         else Inr (map (\<lambda>r. if \<not> obsolete r then r\<lparr>place := group_rank groupby_cols sub r\<rparr> else r) df))"

text \<open>\<open>mark_obsolete_and_place\<close>: the first pass, then the second on its result.\<close>

definition mark_obsolete_and_place :: "('t::linorder) frame \<Rightarrow> string list \<Rightarrow> rank_error + 't frame" where
  "mark_obsolete_and_place df groupby_cols =
     assign_ranking (mark_obsolete_runs df groupby_cols) groupby_cols"

text \<open>The properties of the two passes are stated with the following notions: the
  records of one group agree on the grouping columns, the records of one player-note
  cohort agree on \<open>player_id\<close> and \<open>note\<close> as well.\<close>

definition same_group :: "string list \<Rightarrow> 't run_row \<Rightarrow> 't run_row \<Rightarrow> bool" where
  "same_group cols r r' = (\<forall>c\<in>set cols. cell r c = cell r' c)"

definition same_cohort :: "string list \<Rightarrow> 't run_row \<Rightarrow> 't run_row \<Rightarrow> bool" where
  "same_cohort cols r r' =
     (same_group cols r r' \<and> cell r ''player_id'' = cell r' ''player_id'' \<and>
      cell r ''note'' = cell r' ''note'')"

definition non_null :: "string list \<Rightarrow> 't run_row \<Rightarrow> bool" where
  "non_null cols r =
     ((\<forall>c\<in>set cols. cell r c \<noteq> None) \<and> cell r ''player_id'' \<noteq> None \<and>
      cell r ''note'' \<noteq> None \<and> primary_t r \<noteq> None)"

text \<open>The durations of the records of \<open>df\<close> in the cohort of \<open>r\<close>.\<close>

definition cohort_durations :: "string list \<Rightarrow> 't frame \<Rightarrow> 't run_row \<Rightarrow> 't set" where
  "cohort_durations cols df r =
     set (dropna (map primary_t (filter (\<lambda>r'. same_cohort cols r' r) df)))"

definition strictly_faster :: "('t::linorder) run_row \<Rightarrow> 't run_row \<Rightarrow> bool" where
  "strictly_faster r' r =
     (case (primary_t r', primary_t r) of (Some a, Some b) \<Rightarrow> a < b | _ \<Rightarrow> False)"

subsection \<open>From a raw run to a row (\<open>process_runs\<close>)\<close>

text \<open>
  A run as the API returns it and as the verified-run cache stores it, with the members
  the code reads: \<open>run_status\<close> is \<open>run.get("status", {}).get("status")\<close>,
  \<open>run_players\<close> is \<open>run.get("players") or []\<close> with each participant given by its
  \<open>"id"\<close> member (a guest has none), \<open>run_time\<close> is \<open>run["times"]["primary_t"]\<close>,
  \<open>run_note\<close> and \<open>run_character\<close> are the two entries of \<open>run["values"]\<close>.
\<close>

record 't raw_run =
  run_id :: string
  run_status :: "string option"
  run_weblink :: string
  run_category :: string
  run_level :: "string option"
  run_players :: "string option list"
  run_date :: string
  run_time :: 't
  run_note :: string
  run_character :: string
  run_submitted :: string

text \<open>The attributed player: the id of the first participant, null when there is no
  participant or the first one has no id.\<close>

fun player_id_of :: "string option list \<Rightarrow> string option" where
  "player_id_of [] = None"
| "player_id_of (first # _) = first"

text \<open>The row of a run, with the two columns of the ranking as \<open>process_runs\<close> sets
  them before it ranks (\<open>df["place"] = pd.NA\<close>, \<open>df["obsolete"] = False\<close>).\<close>

definition clean_run :: "'t raw_run \<Rightarrow> 't run_row" where
  "clean_run run =
     \<lparr>cell = (\<lambda>c. case map_of
                [(''id'', Some (run_id run)), (''weblink'', Some (run_weblink run)),
                 (''category'', Some (run_category run)), (''level'', run_level run),
                 (''player_id'', player_id_of (run_players run)), (''date'', Some (run_date run)),
                 (''note'', Some (run_note run)), (''character'', Some (run_character run)),
                 (''submitted'', Some (run_submitted run))] c of
              None \<Rightarrow> None
            | Some v \<Rightarrow> v),
      primary_t = Some (run_time run), obsolete = False, place = None\<rparr>"

section \<open>The fetch client (dashboard\_core/api\_utils.py)\<close>

text \<open>
  The outside world of one call. A request is answered by \<open>server\<close>, which may depend on
  how many requests were sent before (\<open>sent\<close>) and on the URL. \<open>events\<close> holds, in order,
  every \<open>requests.get\<close> and every completed \<open>time.sleep\<close>. \<open>files\<close> is the disk:
  a file is absent, holds a JSON value of the data's type, or does not parse;
  \<open>read_only\<close> tells for which paths opening for writing fails with \<open>OSError\<close>.
\<close>

datatype retry_after = Absent | Seconds int | Unparsable

datatype failure = Http_status nat retry_after | No_response

datatype 'c payload = With_data "'c option" | Without_data 'c

datatype 'c response = Success "'c payload" | Failure failure

datatype 'c disk_file = Json 'c | Corrupt

datatype 'u event = Get 'u | Sleep real

datatype 'u error =
    Fetch_failed 'u "failure option"
  | Negative_sleep
  | No_verified_runs "'u error option"

record ('u, 'c) world =
  server :: "nat \<Rightarrow> 'u \<Rightarrow> 'c response"
  sent :: nat
  events :: "'u event list"
  files :: "string \<Rightarrow> 'c disk_file option"
  read_only :: "string \<Rightarrow> bool"

text \<open>\<open>requests.get(url)\<close> followed by \<open>raise_for_status()\<close> and \<open>json()\<close>: a
  \<open>Failure\<close> is the \<open>RequestException\<close> one of the three raises. A status outside 2xx
  gives \<open>Http_status\<close> with the \<open>Retry-After\<close> header of the response; a connection
  error, a timeout or a body that is not JSON gives \<open>No_response\<close>.\<close>

definition http_get :: "'u \<Rightarrow> ('u, 'c) world \<Rightarrow> 'c response \<times> ('u, 'c) world" where
  "http_get url w = (server w (sent w) url, w\<lparr>sent := Suc (sent w), events := events w @ [Get url]\<rparr>)"

text \<open>\<open>time.sleep(d)\<close> raises \<open>ValueError\<close> for a negative \<open>d\<close>.\<close>

definition sleep :: "real \<Rightarrow> ('u, 'c) world \<Rightarrow> ('u error + unit) \<times> ('u, 'c) world" where
  "sleep d w = (if d < 0 then (Inl Negative_sleep, w) else (Inr (), w\<lparr>events := events w @ [Sleep d]\<rparr>))"

text \<open>\<open>payload.get("data", payload)\<close>: the \<open>data\<close> member when the body has one
  (\<open>None\<close> for a JSON null), else the body itself.\<close>

fun payload_data :: "'c payload \<Rightarrow> 'c option" where
  "payload_data (With_data d) = d"
| "payload_data (Without_data body) = Some body"

text \<open>Writing a JSON file: nothing changes when the file cannot be opened.\<close>

definition write_json :: "string \<Rightarrow> 'c \<Rightarrow> ('u, 'c) world \<Rightarrow> bool \<times> ('u, 'c) world" where
  "write_json path data w =
     (if read_only w path then (False, w)
      else (True, w\<lparr>files := (files w)(path \<mapsto> Json data)\<rparr>))"

text \<open>\<open>int(e.response.headers.get("Retry-After", 1))\<close>, with 1 when \<open>int\<close> raises.\<close>

fun retry_after_seconds :: "retry_after \<Rightarrow> int" where
  "retry_after_seconds Absent = 1"
| "retry_after_seconds (Seconds n) = n"
| "retry_after_seconds Unparsable = 1"

fun rate_limited :: "failure \<Rightarrow> bool" where
  "rate_limited (Http_status code _) = (code = 429)"
| "rate_limited No_response = False"

text \<open>The argument of \<open>time.sleep\<close> in the \<open>except\<close> branch of the attempt with
  index \<open>attempt\<close>.\<close>

fun retry_delay :: "failure \<Rightarrow> real \<Rightarrow> nat \<Rightarrow> real" where
  "retry_delay (Http_status code hdr) backoff_sec attempt =
     (if code = 429 then real_of_int (retry_after_seconds hdr)
      else backoff_sec * (real attempt + 1))"
| "retry_delay No_response backoff_sec attempt = backoff_sec * (real attempt + 1)"

datatype ('u, 'c) attempts_result =
    Returned "'c option"
  | Raised "'u error"
  | Exhausted "failure option"

text \<open>The \<open>for attempt in range(max_retries + 1)\<close> loop, over the attempt indices
  still to run; \<open>last_exc\<close> is carried as in the source.\<close>

fun attempts ::
  "'u \<Rightarrow> string option \<Rightarrow> real \<Rightarrow> nat list \<Rightarrow> failure option \<Rightarrow> ('u, 'c) world \<Rightarrow>
   ('u, 'c) attempts_result \<times> ('u, 'c) world" where
  "attempts url cache_file backoff_sec [] last_exc w = (Exhausted last_exc, w)"
| "attempts url cache_file backoff_sec (attempt # rest) last_exc w =
     (case http_get url w of
        (Success payload, w1) \<Rightarrow>
          (let data = payload_data payload
           in (Returned data,
               case (cache_file, data) of
                 (Some path, Some d) \<Rightarrow> snd (write_json path d w1)
               | _ \<Rightarrow> w1))
      | (Failure e, w1) \<Rightarrow>
          (case sleep (retry_delay e backoff_sec attempt) w1 of
             (Inl err, w2) \<Rightarrow> (Raised err, w2)
           | (Inr _, w2) \<Rightarrow> attempts url cache_file backoff_sec rest (Some e) w2))"

text \<open>\<open>fetch_api_cached\<close>. The \<open>timeout\<close> argument only reaches \<open>requests.get\<close> and
  is part of what \<open>server\<close> answers. After the loop the cache file is the fallback; when
  it is absent or does not parse, \<open>RuntimeError("Failed to fetch ...")\<close> is raised from
  \<open>last_exc\<close>.\<close>

definition fetch_api_cached ::
  "'u \<Rightarrow> string option \<Rightarrow> int \<Rightarrow> real \<Rightarrow> ('u, 'c) world \<Rightarrow>
   ('u error + 'c option) \<times> ('u, 'c) world" where
  "fetch_api_cached url cache_file max_retries backoff_sec w =
     (case attempts url cache_file backoff_sec [0..<nat (max_retries + 1)] None w of
        (Returned data, w') \<Rightarrow> (Inr data, w')
      | (Raised err, w') \<Rightarrow> (Inl err, w')
      | (Exhausted last_exc, w') \<Rightarrow>
          (case cache_file of
             None \<Rightarrow> (Inl (Fetch_failed url last_exc), w')
           | Some path \<Rightarrow>
               (case files w' path of
                  Some (Json c) \<Rightarrow> (Inr (Some c), w')
                | _ \<Rightarrow> (Inl (Fetch_failed url last_exc), w'))))"

section \<open>The paginated collector (dashboard\_core/api\_client.py)\<close>

record api_client =
  client_base :: string
  client_page_size :: int

datatype runs_url = Runs_url (url_base: string) (url_game: string) (url_max: int) (url_offset: int)

text \<open>\<open>ApiClient.get_runs\<close>: \<open>m = max or self.page_size\<close> takes the client's page size
  when \<open>max\<close> is \<open>None\<close> and also when it is 0. The fetch runs with the defaults
  \<open>max_retries=2\<close>, \<open>backoff_sec=2.0\<close>.\<close>

definition get_runs ::
  "api_client \<Rightarrow> string \<Rightarrow> int \<Rightarrow> int option \<Rightarrow> string option \<Rightarrow> (runs_url, 'c) world \<Rightarrow>
   (runs_url error + 'c option) \<times> (runs_url, 'c) world" where
  "get_runs self game_id offset max_arg cache_file w =
     (let m = (case max_arg of
                 None \<Rightarrow> client_page_size self
               | Some n \<Rightarrow> if n = 0 then client_page_size self else n)
      in fetch_api_cached (Runs_url (client_base self) game_id m offset) cache_file 2 2 w)"

text \<open>\<open>used_page = int(page_size) if page_size is not None else self.page_size\<close>, by
  which \<open>get_all_runs\<close> advances the offset.\<close>

definition used_page :: "api_client \<Rightarrow> int option \<Rightarrow> int" where
  "used_page self page_size =
     (case page_size of Some ps \<Rightarrow> ps | None \<Rightarrow> client_page_size self)"

text \<open>The \<open>while True\<close> loop of \<open>ApiClient.get_all_runs\<close>, with its three variables
  \<open>offset\<close>, \<open>all_runs\<close> and \<open>pages_fetched\<close>. A page is a list of runs or \<open>None\<close>;
  \<open>not page\<close> holds for \<open>None\<close> and for the empty list. The loop has no bound of its
  own: a run that never ends is \<open>None\<close>.\<close>

partial_function (option) get_all_runs_loop ::
  "api_client \<Rightarrow> string \<Rightarrow> string option \<Rightarrow> int option \<Rightarrow> int option \<Rightarrow>
   int \<Rightarrow> 'r list \<Rightarrow> int \<Rightarrow> (runs_url, 'r list) world \<Rightarrow>
   ((runs_url error + 'r list) \<times> (runs_url, 'r list) world) option" where
  "get_all_runs_loop self game_id cache_file max_pages page_size offset all_runs pages_fetched w =
     (case get_runs self game_id offset page_size cache_file w of
        (Inl err, w1) \<Rightarrow> Some (Inl err, w1)
      | (Inr page, w1) \<Rightarrow>
          (case page of
             None \<Rightarrow> Some (Inr all_runs, w1)
           | Some [] \<Rightarrow> Some (Inr all_runs, w1)
           | Some (x # xs) \<Rightarrow>
               (if (case max_pages of None \<Rightarrow> False | Some mp \<Rightarrow> pages_fetched + 1 \<ge> mp)
                then Some (Inr (all_runs @ x # xs), w1)
                else get_all_runs_loop self game_id cache_file max_pages page_size
                       (offset + used_page self page_size)
                       (all_runs @ x # xs) (pages_fetched + 1) w1)))"

definition get_all_runs ::
  "api_client \<Rightarrow> string \<Rightarrow> string option \<Rightarrow> int option \<Rightarrow> int option \<Rightarrow>
   (runs_url, 'r list) world \<Rightarrow> ((runs_url error + 'r list) \<times> (runs_url, 'r list) world) option" where
  "get_all_runs self game_id cache_file max_pages page_size w =
     get_all_runs_loop self game_id cache_file max_pages page_size 0 [] 0 w"

text \<open>The collection is compared with the following chain of requests: \<open>n\<close> requests,
  the first at \<open>offset\<close> and each next one \<open>step\<close> further, every one of them answered
  with a non-empty page. The result is the pages in the order of the requests and the
  world after the last request, and \<open>None\<close> when a request fails or brings no run.\<close>

fun request_chain ::
  "api_client \<Rightarrow> string \<Rightarrow> string option \<Rightarrow> int option \<Rightarrow> int \<Rightarrow> int \<Rightarrow>
   (runs_url, 'r list) world \<Rightarrow> nat \<Rightarrow> ('r list list \<times> (runs_url, 'r list) world) option" where
  "request_chain self game_id cache_file page_size step offset w 0 = Some ([], w)"
| "request_chain self game_id cache_file page_size step offset w (Suc n) =
     (case get_runs self game_id offset page_size cache_file w of
        (Inr (Some (x # xs)), w1) \<Rightarrow>
          (case request_chain self game_id cache_file page_size step (offset + step) w1 n of
             Some (pages, w') \<Rightarrow> Some ((x # xs) # pages, w')
           | None \<Rightarrow> None)
      | _ \<Rightarrow> None)"

section \<open>The verified-run repository (dashboard\_core/fetch\_runs.py, io\_utils.py)\<close>

definition GAME_ID :: string where
  "GAME_ID = ''o1y3y346''"

definition CACHE_FILE :: string where
  "CACHE_FILE = ''data/cache/shadow_reloaded_runs_cache.json''"

text \<open>\<open>ApiClient()\<close> with the defaults of its constructor.\<close>

definition default_client :: api_client where
  "default_client = \<lparr>client_base = ''https://www.speedrun.com/api/v1'', client_page_size = 200\<rparr>"

text \<open>\<open>safe_read_json\<close>: the parsed file, or the default when the file is absent or does
  not parse.\<close>

definition safe_read_json :: "string \<Rightarrow> 'c \<Rightarrow> ('u, 'c) world \<Rightarrow> 'c" where
  "safe_read_json path dflt w =
     (case files w path of Some (Json c) \<Rightarrow> c | _ \<Rightarrow> dflt)"

text \<open>\<open>safe_write_json\<close>: \<open>True\<close> when written, \<open>False\<close> after an \<open>OSError\<close>.\<close>

definition safe_write_json :: "string \<Rightarrow> 'c \<Rightarrow> ('u, 'c) world \<Rightarrow> bool \<times> ('u, 'c) world" where
  "safe_write_json path data w = write_json path data w"

text \<open>A Python \<open>dict\<close> as the list of its items in insertion order: storing under a key
  that is present replaces the value where the key stands, a new key goes to the end.\<close>

fun dict_setitem :: "'k \<Rightarrow> 'v \<Rightarrow> ('k \<times> 'v) list \<Rightarrow> ('k \<times> 'v) list" where
  "dict_setitem k v [] = [(k, v)]"
| "dict_setitem k v ((k', v') # d) =
     (if k' = k then (k, v) # d else (k', v') # dict_setitem k v d)"

text \<open>\<open>{run["id"]: run for run in runs}\<close> and \<open>dict.values()\<close>.\<close>

definition dict_by_id :: "'t raw_run list \<Rightarrow> (string \<times> 't raw_run) list" where
  "dict_by_id runs = fold (\<lambda>run d. dict_setitem (run_id run) run d) runs []"

definition dict_values :: "('k \<times> 'v) list \<Rightarrow> 'v list" where
  "dict_values d = map snd d"

definition is_verified :: "'t raw_run \<Rightarrow> bool" where
  "is_verified r = (run_status r = Some ''verified'')"

text \<open>\<open>fetch_verified_runs\<close>. Every exception of the collection is caught and kept in
  \<open>last_exc\<close>; the \<open>RuntimeError\<close> raised at the end carries it in its message.\<close>

definition fetch_verified_runs ::
  "(runs_url, 't raw_run list) world \<Rightarrow>
   ((runs_url error + 't raw_run list) \<times> (runs_url, 't raw_run list) world) option" where
  "fetch_verified_runs w =
     (let existing_runs = safe_read_json CACHE_FILE [] w
      in case get_all_runs default_client GAME_ID None None None w of
           None \<Rightarrow> None
         | Some (fetched, w1) \<Rightarrow>
             (let last_exc = (case fetched of Inl e \<Rightarrow> Some e | Inr _ \<Rightarrow> None);
                  fetched_runs = (case fetched of Inl _ \<Rightarrow> [] | Inr runs \<Rightarrow> runs);
                  combined = dict_by_id (existing_runs @ fetched_runs);
                  verified_runs = filter is_verified (dict_values combined);
                  w2 = snd (safe_write_json CACHE_FILE verified_runs w1)
              in Some (if verified_runs = [] \<and> existing_runs = []
                       then (Inl (No_verified_runs last_exc), w2)
                       else if verified_runs = [] then (Inr existing_runs, w2)
                       else (Inr verified_runs, w2))))"

text \<open>The merge is compared with the following reading of "last writer wins": of the
  records of a list with the identity \<open>k\<close>, the one that comes last.\<close>

definition last_with_id :: "'t raw_run list \<Rightarrow> string \<Rightarrow> 't raw_run option" where
  "last_with_id runs k = find (\<lambda>r. run_id r = k) (rev runs)"

section \<open>Example inputs\<close>

subsection \<open>Example frames\<close>

text \<open>Rows of the group \<open>category = A\<close>, \<open>character = X\<close>, as \<open>process_runs\<close> hands
  them to the ranking: \<open>place\<close> null, \<open>obsolete\<close> false.\<close>

definition scenario_row :: "string \<Rightarrow> string \<Rightarrow> real \<Rightarrow> real run_row" where
  "scenario_row player note_id t =
     \<lparr>cell = map_of [(''category'', ''A''), (''character'', ''X''),
                     (''player_id'', player), (''note'', note_id)],
      primary_t = Some t, obsolete = False, place = None\<rparr>"

text \<open>One player, one note, durations 10.00, 10.00 and 12.50.\<close>

definition scenario_frame :: "real frame" where
  "scenario_frame =
     [scenario_row ''P'' ''All'' 10, scenario_row ''P'' ''All'' 10, scenario_row ''P'' ''All'' (25 / 2)]"

text \<open>Four players with durations 10, 10, 12 and 13, and a slower second run of the
  last of them.\<close>

definition tie_frame :: "real frame" where
  "tie_frame =
     [scenario_row ''P'' ''All'' 10, scenario_row ''Q'' ''All'' 10, scenario_row ''R'' ''All'' 12,
      scenario_row ''S'' ''All'' 13, scenario_row ''S'' ''All'' 14]"

text \<open>Two players in one group, one run each.\<close>

definition two_player_frame :: "real frame" where
  "two_player_frame = [scenario_row ''P'' ''All'' 10, scenario_row ''Q'' ''All'' 12]"

text \<open>A single run whose only participant is a guest, and one without participants.\<close>

definition guest_run :: "real raw_run" where
  "guest_run =
     \<lparr>run_id = ''r1'', run_status = Some ''verified'', run_weblink = ''https://www.speedrun.com/run/r1'',
      run_category = ''A'', run_level = None, run_players = [None], run_date = ''2024-01-01'',
      run_time = 10, run_note = ''All'', run_character = ''X'',
      run_submitted = ''2024-01-01T00:00:00Z''\<rparr>"

definition anonymous_run :: "real raw_run" where
  "anonymous_run = guest_run\<lparr>run_players := []\<rparr>"

subsection \<open>Example worlds\<close>

text \<open>A world in which nothing has been sent yet and every file can be written.\<close>

definition fresh_world ::
  "(nat \<Rightarrow> 'u \<Rightarrow> 'c response) \<Rightarrow> (string \<Rightarrow> 'c disk_file option) \<Rightarrow> ('u, 'c) world" where
  "fresh_world srv disk =
     \<lparr>server = srv, sent = 0, events = [], files = disk, read_only = (\<lambda>_. False)\<rparr>"

definition categories_url :: string where
  "categories_url = ''https://www.speedrun.com/api/v1/games/o1y3y346/categories''"

text \<open>A server that never answers: a timeout, then a 503, then a timeout again.\<close>

definition down_server :: "nat \<Rightarrow> 'u \<Rightarrow> 'c response" where
  "down_server k url = (if k = 1 then Failure (Http_status 503 Absent) else Failure No_response)"

text \<open>A server that answers the first request with 429 and \<open>Retry-After: 3\<close>, and every
  later one with a body whose \<open>data\<close> member is a list of two names.\<close>

definition busy_server :: "nat \<Rightarrow> 'u \<Rightarrow> string list response" where
  "busy_server k url =
     (if k = 0 then Failure (Http_status 429 (Seconds 3))
      else Success (With_data (Some [''Any%'', ''All Levels''])))"

text \<open>The cached run \<open>r1\<close>, the same run as the API returns it now, and a rejected run
  \<open>r2\<close>.\<close>

definition cached_r1 :: "real raw_run" where
  "cached_r1 = guest_run\<lparr>run_players := [Some ''P''], run_time := 12\<rparr>"

definition fresh_r1 :: "real raw_run" where
  "fresh_r1 = cached_r1\<lparr>run_time := 10\<rparr>"

definition rejected_r2 :: "real raw_run" where
  "rejected_r2 = cached_r1\<lparr>run_id := ''r2'', run_status := Some ''rejected''\<rparr>"

text \<open>A server whose first page of runs holds the fresh \<open>r1\<close> and \<open>r2\<close>, and whose
  other pages are empty; a disk that holds the cached \<open>r1\<close>.\<close>

definition scenario_server :: "nat \<Rightarrow> runs_url \<Rightarrow> real raw_run list response" where
  "scenario_server k url =
     (if url_offset url = 0 then Success (With_data (Some [fresh_r1, rejected_r2]))
      else Success (With_data (Some [])))"

definition cache_disk :: "string \<Rightarrow> real raw_run list disk_file option" where
  "cache_disk = [CACHE_FILE \<mapsto> Json [cached_r1]]"

text \<open>A server with one run on the page at offset 0 and another on the page at offset
  200.\<close>

definition paged_server :: "nat \<Rightarrow> runs_url \<Rightarrow> string list response" where
  "paged_server k url =
     (if url_offset url = 0 then Success (With_data (Some [''r1'']))
      else if url_offset url = 200 then Success (With_data (Some [''r2'']))
      else Success (With_data (Some [])))"

text \<open>A server that answers the first request with 429 and \<open>Retry-After: -1\<close>, and a
  disk with a cached catalog.\<close>

definition hasty_server :: "nat \<Rightarrow> 'u \<Rightarrow> string list response" where
  "hasty_server k url =
     (if k = 0 then Failure (Http_status 429 (Seconds (- 1)))
      else Success (With_data (Some [''Any%'', ''All Levels''])))"

definition catalog_disk :: "string \<Rightarrow> string list disk_file option" where
  "catalog_disk = [''categories.json'' \<mapsto> Json [''Any%'']]"

text \<open>The run \<open>r1\<close> once more, rejected; a server whose first page holds \<open>r1\<close> twice,
  verified and then rejected; a disk whose cache file does not parse, and one whose cache
  file holds the empty list.\<close>

definition rejected_r1 :: "real raw_run" where
  "rejected_r1 = fresh_r1\<lparr>run_status := Some ''rejected''\<rparr>"

definition twice_r1_server :: "nat \<Rightarrow> runs_url \<Rightarrow> real raw_run list response" where
  "twice_r1_server k url =
     (if url_offset url = 0 then Success (With_data (Some [fresh_r1, rejected_r1]))
      else Success (With_data (Some [])))"

definition corrupt_disk :: "string \<Rightarrow> real raw_run list disk_file option" where
  "corrupt_disk = [CACHE_FILE \<mapsto> Corrupt]"

definition empty_list_disk :: "string \<Rightarrow> real raw_run list disk_file option" where
  "empty_list_disk = [CACHE_FILE \<mapsto> Json []]"

section \<open>Properties of the ranking and obsolescence passes\<close>

subsection \<open>The pandas operations\<close>

lemma set_dropna: "set (dropna xs) = {x. Some x \<in> set xs}"
  by (induction xs rule: dropna.induct) auto

lemma series_min_Min:
  assumes "xs \<noteq> []"
  shows "series_min xs = Some (Min (set xs))"
proof (cases xs)
  case Nil
  with assms show ?thesis by simp
next
  case (Cons a as)
  have "Min (set (a # as)) = fold min as a" by (rule Min.set_eq_fold)
  with Cons show ?thesis by simp
qed

lemma group_key_eq_iff:
  "group_key keys r = group_key keys r' \<longleftrightarrow> (\<forall>c\<in>set keys. cell r c = cell r' c)"
  by (simp add: group_key_def)

lemma null_key_iff: "null_key keys r \<longleftrightarrow> (\<exists>c\<in>set keys. cell r c = None)"
proof -
  have "None \<in> cell r ` set keys \<longleftrightarrow> (\<exists>c\<in>set keys. cell r c = None)"
    by (metis (mono_tags) image_iff)
  then show ?thesis by (simp add: null_key_def group_key_def)
qed

lemma null_key_append: "null_key (ks @ ks') r \<longleftrightarrow> null_key ks r \<or> null_key ks' r"
  by (auto simp: null_key_def group_key_def)

lemma cohort_key_eq:
  "group_key (cols @ [''player_id'', ''note'']) r' = group_key (cols @ [''player_id'', ''note'']) r
   \<longleftrightarrow> same_cohort cols r' r"
  by (auto simp: group_key_eq_iff same_cohort_def same_group_def)

lemma non_null_key: "non_null cols r \<Longrightarrow> \<not> null_key (cols @ [''player_id'', ''note'']) r"
  by (auto simp: null_key_iff non_null_def)

lemma cohort_durations_eq:
  "cohort_durations cols df r =
     {t. \<exists>r'\<in>set df. same_cohort cols r' r \<and> primary_t r' = Some t}"
  by (auto simp: cohort_durations_def set_dropna image_iff)

lemma set_group_values:
  "set (group_values keys df r) =
   {t. \<exists>r'\<in>set df. group_key keys r' = group_key keys r \<and> primary_t r' = Some t}"
  by (auto simp: group_values_def group_rows_def set_dropna image_iff)

lemma takeWhile_neq_sorted:
  fixes v :: "'t::linorder"
  shows "sorted xs \<Longrightarrow> v \<in> set xs \<Longrightarrow> takeWhile (\<lambda>x. x \<noteq> v) xs = filter (\<lambda>x. x < v) xs"
proof (induction xs)
  case Nil
  then show ?case by simp
next
  case (Cons x xs)
  show ?case
  proof (cases "x = v")
    case True
    with Cons.prems have "\<forall>y\<in>set xs. \<not> y < v" by auto
    then have "filter (\<lambda>y. y < v) xs = []" by (simp add: filter_empty_conv)
    with True show ?thesis by simp
  next
    case False
    with Cons.prems have "v \<in> set xs" "x < v" "sorted xs" by auto
    with Cons.IH False show ?thesis by simp
  qed
qed

lemma length_filter_sort:
  fixes vs :: "('t::linorder) list"
  shows "length (filter P (sort vs)) = length (filter P vs)"
proof -
  have "mset (filter P (sort vs)) = mset (filter P vs)" by simp
  then show ?thesis by (metis size_mset)
qed

text \<open>The rank of a value of the group is one more than the number of values of the
  group below it.\<close>

lemma rank_min_count:
  fixes vs :: "('t::linorder) list"
  assumes "v \<in> set vs"
  shows "rank_min vs v = Suc (length (filter (\<lambda>x. x < v) vs))"
proof -
  have "takeWhile (\<lambda>x. x \<noteq> v) (sort vs) = filter (\<lambda>x. x < v) (sort vs)"
    using assms by (intro takeWhile_neq_sorted) simp_all
  then show ?thesis by (simp add: rank_min_def length_filter_sort)
qed

lemma filter_dropna_map:
  "length (filter P (dropna (map f xs))) =
   length (filter (\<lambda>x. case f x of None \<Rightarrow> False | Some y \<Rightarrow> P y) xs)"
proof (induction xs)
  case Nil
  then show ?case by simp
next
  case (Cons x xs)
  then show ?case by (cases "f x") simp_all
qed

lemma series_ne_False: "\<not> series_ne a b \<longleftrightarrow> (\<exists>t. a = Some t \<and> b = Some t)"
  by (cases a; cases b) auto

lemma transform_min_Some: "transform_min keys df r = Some t \<Longrightarrow> \<not> null_key keys r"
  by (auto simp: transform_min_def split: if_splits)

lemma same_group_cong:
  "cell a = cell a' \<Longrightarrow> cell b = cell b' \<Longrightarrow> same_group cols a b = same_group cols a' b'"
  by (simp add: same_group_def)

lemma strictly_faster_cong:
  "primary_t a = primary_t a' \<Longrightarrow> primary_t b = primary_t b' \<Longrightarrow>
   strictly_faster a b = strictly_faster a' b'"
  by (simp add: strictly_faster_def)

lemma null_key_cong: "cell a = cell a' \<Longrightarrow> null_key cols a = null_key cols a'"
  by (simp add: null_key_def group_key_def)

subsection \<open>The obsolescence pass\<close>

lemma length_mark_obsolete_runs [simp]: "length (mark_obsolete_runs df cols) = length df"
  by (simp add: mark_obsolete_runs_def Let_def)

lemma nth_mark_obsolete_runs:
  "i < length df \<Longrightarrow>
   mark_obsolete_runs df cols ! i =
   (df ! i)\<lparr>obsolete := series_ne (primary_t (df ! i))
                          (transform_min (cols @ [''player_id'', ''note'']) df (df ! i))\<rparr>"
  by (simp add: mark_obsolete_runs_def Let_def)

lemma mark_fields:
  assumes "j < length df"
  shows "cell (mark_obsolete_runs df cols ! j) = cell (df ! j)"
        "primary_t (mark_obsolete_runs df cols ! j) = primary_t (df ! j)"
        "place (mark_obsolete_runs df cols ! j) = place (df ! j)"
  using assms by (simp_all add: nth_mark_obsolete_runs)

text \<open>The minimum that the pass compares a row with is the least duration of the
  cohort of the row.\<close>

lemma transform_min_cohort:
  fixes df :: "('t::linorder) frame"
  assumes "r \<in> set df" "non_null cols r"
  shows "transform_min (cols @ [''player_id'', ''note'']) df r =
         Some (Min (cohort_durations cols df r))"
proof -
  let ?keys = "cols @ [''player_id'', ''note'']"
  from assms(2) obtain t where t: "primary_t r = Some t" by (auto simp: non_null_def)
  have vals: "set (group_values ?keys df r) = cohort_durations cols df r"
    by (simp add: set_group_values cohort_key_eq cohort_durations_eq)
  have "t \<in> cohort_durations cols df r"
    using assms(1) t by (auto simp: cohort_durations_eq same_cohort_def same_group_def)
  with vals have "group_values ?keys df r \<noteq> []" by auto
  then show ?thesis
    using non_null_key[OF assms(2)] vals by (simp add: transform_min_def series_min_Min)
qed

text \<open>A row that the pass leaves non-obsolete has a duration and no null among the
  grouping columns, \<open>player_id\<close> and \<open>note\<close>.\<close>

lemma not_obsolete_non_null:
  assumes "i < length df" "\<not> obsolete (mark_obsolete_runs df cols ! i)"
  shows "non_null cols (df ! i)"
proof -
  let ?keys = "cols @ [''player_id'', ''note'']"
  from assms obtain t where
    t: "primary_t (df ! i) = Some t" "transform_min ?keys df (df ! i) = Some t"
    by (auto simp: nth_mark_obsolete_runs series_ne_False)
  from t(2) have "\<not> null_key ?keys (df ! i)" by (rule transform_min_Some)
  then show ?thesis using t(1) by (auto simp: null_key_iff non_null_def)
qed

text \<open>C1. Under the precondition that no record has a null in the grouping columns,
  \<open>player_id\<close>, \<open>note\<close> or \<open>primary_t\<close>, the obsolescence pass changes nothing but the
  \<open>obsolete\<close> column, and a record is left non-obsolete exactly when its duration is
  the minimum of the durations of its player-note cohort; every other record of the
  cohort, and no record tied at the minimum, is obsolete.\<close>

theorem obsolescence_pass_cohort_minimum:
  fixes df :: "('t::linorder) frame"
  assumes "\<forall>r\<in>set df. non_null cols r"
  shows "length (mark_obsolete_runs df cols) = length df \<and>
    (\<forall>i<length df.
       mark_obsolete_runs df cols ! i =
         (df ! i)\<lparr>obsolete := obsolete (mark_obsolete_runs df cols ! i)\<rparr> \<and>
       (\<not> obsolete (mark_obsolete_runs df cols ! i) \<longleftrightarrow>
          primary_t (df ! i) = Some (Min (cohort_durations cols df (df ! i)))))"
proof (intro conjI allI impI)
  show "length (mark_obsolete_runs df cols) = length df" by simp
next
  fix i assume "i < length df"
  then show "mark_obsolete_runs df cols ! i =
      (df ! i)\<lparr>obsolete := obsolete (mark_obsolete_runs df cols ! i)\<rparr>"
    by (simp add: nth_mark_obsolete_runs)
next
  fix i assume i: "i < length df"
  then have mem: "df ! i \<in> set df" by simp
  with assms have nn: "non_null cols (df ! i)" by blast
  then obtain t where t: "primary_t (df ! i) = Some t" by (auto simp: non_null_def)
  show "\<not> obsolete (mark_obsolete_runs df cols ! i) \<longleftrightarrow>
        primary_t (df ! i) = Some (Min (cohort_durations cols df (df ! i)))"
    using i t transform_min_cohort[OF mem nn] by (simp add: nth_mark_obsolete_runs)
qed

lemmas rank_eval_defs =
  scenario_row_def mark_obsolete_and_place_def assign_ranking_def group_rank_def rank_min_def
  mark_obsolete_runs_def transform_min_def null_key_def group_key_def group_values_def
  group_rows_def

theorem obsolescence_pass_cohort_minimum_witness:
  "list_all (non_null [''category'', ''character'']) scenario_frame \<and>
   map obsolete (mark_obsolete_runs scenario_frame [''category'', ''character'']) = [False, False, True] \<and>
   Min (cohort_durations [''category'', ''character''] scenario_frame (scenario_frame ! 2)) = 10 \<and>
   primary_t (scenario_frame ! 2) = Some (25 / 2) \<and>
   (\<not> obsolete (mark_obsolete_runs scenario_frame [''category'', ''character''] ! 2) \<longleftrightarrow>
      primary_t (scenario_frame ! 2) =
        Some (Min (cohort_durations [''category'', ''character''] scenario_frame (scenario_frame ! 2))))"
proof -
  have m: "Min (cohort_durations [''category'', ''character''] scenario_frame (scenario_frame ! 2)) = 10"
    by (simp add: scenario_frame_def scenario_row_def cohort_durations_def same_cohort_def
          same_group_def)
  have p: "primary_t (scenario_frame ! 2) = Some (25 / 2)"
    by (simp add: scenario_frame_def scenario_row_def)
  have h: "\<forall>r\<in>set scenario_frame. non_null [''category'', ''character''] r"
    by (simp add: scenario_frame_def scenario_row_def non_null_def del: not_None_eq)
  have e: "map obsolete (mark_obsolete_runs scenario_frame [''category'', ''character'']) = [False, False, True]"
    by (simp add: scenario_frame_def rank_eval_defs)
  have "2 < length scenario_frame" by (simp add: scenario_frame_def)
  have "\<not> obsolete (mark_obsolete_runs scenario_frame [''category'', ''character''] ! 2) \<longleftrightarrow>
      primary_t (scenario_frame ! 2) =
        Some (Min (cohort_durations [''category'', ''character''] scenario_frame (scenario_frame ! 2)))"
    using obsolescence_pass_cohort_minimum[OF h] \<open>2 < length scenario_frame\<close> by blast
  with h e m p show ?thesis by (simp add: list_all_iff)
qed

subsection \<open>The ranking pass\<close>

lemma assign_ranking_returns: "cols \<noteq> [] \<Longrightarrow> \<exists>out. assign_ranking df cols = Inr out"
  by (simp add: assign_ranking_def Let_def)

lemma mark_obsolete_and_place_returns:
  "cols \<noteq> [] \<Longrightarrow> \<exists>out. mark_obsolete_and_place df cols = Inr out"
  unfolding mark_obsolete_and_place_def by (rule assign_ranking_returns)

lemma assign_ranking_length: "assign_ranking df cols = Inr out \<Longrightarrow> length out = length df"
  by (auto simp: assign_ranking_def Let_def split: if_splits)

lemma assign_ranking_nth:
  "assign_ranking df cols = Inr out \<Longrightarrow> i < length df \<Longrightarrow>
   out ! i = (if \<not> obsolete (df ! i)
              then (df ! i)\<lparr>place := group_rank cols (filter (\<lambda>r. \<not> obsolete r) df) (df ! i)\<rparr>
              else df ! i)"
  by (auto simp: assign_ranking_def Let_def split: if_splits)

lemma assign_ranking_fields:
  assumes "assign_ranking m cols = Inr out" "j < length m"
  shows "obsolete (out ! j) = obsolete (m ! j)" "cell (out ! j) = cell (m ! j)"
        "primary_t (out ! j) = primary_t (m ! j)"
  using assign_ranking_nth[OF assms] by (simp_all split: if_splits)

text \<open>Inside the selected rows, the rank of a row is one more than the number of
  selected rows of its group with a strictly smaller duration.\<close>

lemma group_rank_count:
  fixes sub :: "('t::linorder) frame"
  assumes "r \<in> set sub" "\<not> null_key cols r" "primary_t r = Some t"
  shows "group_rank cols sub r =
         Some (Suc (length (filter (\<lambda>r'. same_group cols r' r \<and> strictly_faster r' r) sub)))"
proof -
  have "t \<in> set (group_values cols sub r)"
    using assms by (auto simp: set_group_values)
  then have "rank_min (group_values cols sub r) t =
             Suc (length (filter (\<lambda>x. x < t) (group_values cols sub r)))"
    by (rule rank_min_count)
  also have "length (filter (\<lambda>x. x < t) (group_values cols sub r)) =
             length (filter (\<lambda>r'. same_group cols r' r \<and> strictly_faster r' r) sub)"
    unfolding group_values_def group_rows_def filter_dropna_map
    using assms(3)
    by (auto simp: group_key_eq_iff same_group_def strictly_faster_def
             intro!: arg_cong[where f=length] filter_cong split: option.splits)
  finally show ?thesis using assms by (simp add: group_rank_def)
qed

lemma assign_ranking_place:
  fixes m :: "('t::linorder) frame"
  assumes out: "assign_ranking m cols = Inr out" and i: "i < length m"
    and no: "\<not> obsolete (m ! i)" and nk: "\<not> null_key cols (m ! i)"
    and t: "primary_t (m ! i) \<noteq> None"
  shows "place (out ! i) =
         Some (1 + card {j. j < length out \<and> \<not> obsolete (out ! j) \<and>
                           same_group cols (out ! j) (out ! i) \<and>
                           strictly_faster (out ! j) (out ! i)})"
proof -
  let ?sub = "filter (\<lambda>r. \<not> obsolete r) m"
  let ?Q = "\<lambda>r'. same_group cols r' (m ! i) \<and> strictly_faster r' (m ! i)"
  from t obtain d where d: "primary_t (m ! i) = Some d" by auto
  have len: "length out = length m" using out by (rule assign_ranking_length)
  have mem: "m ! i \<in> set ?sub" using i no by simp
  have "place (out ! i) = group_rank cols ?sub (m ! i)"
    using assign_ranking_nth[OF out i] no by simp
  also have "\<dots> = Some (Suc (length (filter ?Q ?sub)))"
    using mem nk d by (rule group_rank_count)
  also have "length (filter ?Q ?sub) = length (filter (\<lambda>r'. \<not> obsolete r' \<and> ?Q r') m)"
    by (simp add: conj_commute)
  also have "\<dots> = card {j. j < length m \<and> \<not> obsolete (m ! j) \<and> ?Q (m ! j)}"
    by (simp add: length_filter_conv_card)
  also have "{j. j < length m \<and> \<not> obsolete (m ! j) \<and> ?Q (m ! j)} =
             {j. j < length out \<and> \<not> obsolete (out ! j) \<and> same_group cols (out ! j) (out ! i) \<and>
                 strictly_faster (out ! j) (out ! i)}"
  proof (rule Collect_cong)
    fix j
    show "(j < length m \<and> \<not> obsolete (m ! j) \<and> ?Q (m ! j)) \<longleftrightarrow>
          (j < length out \<and> \<not> obsolete (out ! j) \<and> same_group cols (out ! j) (out ! i) \<and>
           strictly_faster (out ! j) (out ! i))"
    proof (cases "j < length m")
      case True
      note fj = assign_ranking_fields[OF out True] and fi = assign_ranking_fields[OF out i]
      have "same_group cols (out ! j) (out ! i) = same_group cols (m ! j) (m ! i)"
        by (rule same_group_cong) (simp_all add: fj fi)
      moreover have "strictly_faster (out ! j) (out ! i) = strictly_faster (m ! j) (m ! i)"
        by (rule strictly_faster_cong) (simp_all add: fj fi)
      ultimately show ?thesis using True len fj(1) by simp
    next
      case False
      then show ?thesis using len by simp
    qed
  qed
  finally show ?thesis by simp
qed

text \<open>The two passes in a row: what each row of the result is made of.\<close>

lemma ranked_row:
  fixes df :: "('t::linorder) frame"
  assumes "mark_obsolete_and_place df cols = Inr out" "i < length df"
  shows "length out = length df"
    and "cell (out ! i) = cell (df ! i)"
    and "primary_t (out ! i) = primary_t (df ! i)"
    and "obsolete (out ! i) = obsolete (mark_obsolete_runs df cols ! i)"
    and "obsolete (out ! i) \<Longrightarrow> place (out ! i) = place (df ! i)"
    and "\<not> obsolete (out ! i) \<Longrightarrow>
         place (out ! i) =
           Some (1 + card {j. j < length out \<and> \<not> obsolete (out ! j) \<and>
                             same_group cols (out ! j) (out ! i) \<and>
                             strictly_faster (out ! j) (out ! i)})"
    and "\<not> obsolete (out ! i) \<Longrightarrow> non_null cols (df ! i)"
proof -
  let ?m = "mark_obsolete_runs df cols"
  from assms(1) have out: "assign_ranking ?m cols = Inr out"
    by (simp add: mark_obsolete_and_place_def)
  have im: "i < length ?m" using assms(2) by simp
  note f = assign_ranking_fields[OF out im] and g = mark_fields[OF assms(2), of cols]
  show "length out = length df" using assign_ranking_length[OF out] by simp
  show "cell (out ! i) = cell (df ! i)" using f g by simp
  show "primary_t (out ! i) = primary_t (df ! i)" using f g by simp
  show "obsolete (out ! i) = obsolete (?m ! i)" using f by simp
  show "place (out ! i) = place (df ! i)" if "obsolete (out ! i)"
  proof -
    from that f have "obsolete (?m ! i)" by simp
    then have "out ! i = ?m ! i" using assign_ranking_nth[OF out im] by simp
    then show ?thesis using g by simp
  qed
  show nn: "non_null cols (df ! i)" if "\<not> obsolete (out ! i)"
    using that f not_obsolete_non_null[OF assms(2)] by simp
  show "place (out ! i) =
           Some (1 + card {j. j < length out \<and> \<not> obsolete (out ! j) \<and>
                             same_group cols (out ! j) (out ! i) \<and>
                             strictly_faster (out ! j) (out ! i)})" if no: "\<not> obsolete (out ! i)"
  proof -
    from nn[OF no] have "\<not> null_key cols (df ! i)" "primary_t (df ! i) \<noteq> None"
      by (auto simp: non_null_def null_key_iff)
    then have "\<not> null_key cols (?m ! i)" "primary_t (?m ! i) \<noteq> None"
      using g by (simp_all add: null_key_def group_key_def)
    moreover have "\<not> obsolete (?m ! i)" using no f by simp
    ultimately show ?thesis using out im by (intro assign_ranking_place)
  qed
qed

text \<open>C2. The two passes return a frame for every non-empty list of grouping columns.
  In the frame they return, the place of every non-obsolete record is 1 plus the number
  of non-obsolete records of its group (the same values in the grouping columns, whatever
  the player and the note) with a strictly smaller duration, so records of a group with
  equal durations share their place (competition ranking); the place of an obsolete
  record is left as it was, null where it was null.\<close>

theorem ranking_pass_competition_places:
  fixes df :: "('t::linorder) frame"
  shows "(cols \<noteq> [] \<longrightarrow> (\<exists>out. mark_obsolete_and_place df cols = Inr out)) \<and>
    (\<forall>out. mark_obsolete_and_place df cols = Inr out \<longrightarrow>
       length out = length df \<and>
       (\<forall>i<length df.
          (\<not> obsolete (out ! i) \<longrightarrow>
             place (out ! i) =
               Some (1 + card {j. j < length out \<and> \<not> obsolete (out ! j) \<and>
                                  same_group cols (out ! j) (out ! i) \<and>
                                  strictly_faster (out ! j) (out ! i)})) \<and>
          (obsolete (out ! i) \<longrightarrow>
             place (out ! i) = place (df ! i) \<and> (place (df ! i) = None \<longrightarrow> place (out ! i) = None))) \<and>
       (\<forall>i<length df. \<forall>j<length df.
          \<not> obsolete (out ! i) \<and> \<not> obsolete (out ! j) \<and> same_group cols (out ! i) (out ! j) \<and>
          primary_t (out ! i) = primary_t (out ! j) \<longrightarrow> place (out ! i) = place (out ! j)))"
proof (intro conjI allI impI)
  assume "cols \<noteq> []"
  then show "\<exists>out. mark_obsolete_and_place df cols = Inr out"
    by (rule mark_obsolete_and_place_returns)
next
  fix out assume "mark_obsolete_and_place df cols = Inr out"
  then show "length out = length df"
    by (cases "df = []") (auto simp: mark_obsolete_and_place_def dest: assign_ranking_length)
next
  fix out i
  assume "mark_obsolete_and_place df cols = Inr out" "i < length df" "\<not> obsolete (out ! i)"
  then show "place (out ! i) =
      Some (1 + card {j. j < length out \<and> \<not> obsolete (out ! j) \<and>
                        same_group cols (out ! j) (out ! i) \<and> strictly_faster (out ! j) (out ! i)})"
    by (rule ranked_row(6))
next
  fix out i
  assume "mark_obsolete_and_place df cols = Inr out" "i < length df" "obsolete (out ! i)"
  then show "place (out ! i) = place (df ! i)" by (rule ranked_row(5))
next
  fix out i
  assume "mark_obsolete_and_place df cols = Inr out" "i < length df" "obsolete (out ! i)"
  then have "place (out ! i) = place (df ! i)" by (rule ranked_row(5))
  moreover assume "place (df ! i) = None"
  ultimately show "place (out ! i) = None" by simp
next
  fix out i j
  assume mp: "mark_obsolete_and_place df cols = Inr out" and i: "i < length df" and j: "j < length df"
    and h: "\<not> obsolete (out ! i) \<and> \<not> obsolete (out ! j) \<and> same_group cols (out ! i) (out ! j) \<and>
          primary_t (out ! i) = primary_t (out ! j)"
  have sg: "\<And>k. same_group cols (out ! k) (out ! i) = same_group cols (out ! k) (out ! j)"
    using h by (auto simp: same_group_def)
  have sf: "\<And>k. strictly_faster (out ! k) (out ! i) = strictly_faster (out ! k) (out ! j)"
    using h by (simp add: strictly_faster_def)
  show "place (out ! i) = place (out ! j)"
    using ranked_row(6)[OF mp i] ranked_row(6)[OF mp j] h by (simp add: sg sf)
qed

lemma tie_frame_ranked:
  "\<exists>out. mark_obsolete_and_place tie_frame [''category'', ''character''] = Inr out \<and>
         map obsolete out = [False, False, False, False, True] \<and>
         map place out = [Some 1, Some 1, Some 3, Some 4, None]"
  by (simp add: tie_frame_def rank_eval_defs)

theorem ranking_pass_competition_places_witness:
  "[''category'', ''character''] \<noteq> [] \<and>
   (\<exists>out. mark_obsolete_and_place tie_frame [''category'', ''character''] = Inr out \<and>
      map obsolete out = [False, False, False, False, True] \<and>
      map place out = [Some 1, Some 1, Some 3, Some 4, None] \<and>
      place (out ! 2) =
        Some (1 + card {j. j < length out \<and> \<not> obsolete (out ! j) \<and>
                           same_group [''category'', ''character''] (out ! j) (out ! 2) \<and>
                           strictly_faster (out ! j) (out ! 2)}) \<and>
      place (out ! 4) = place (tie_frame ! 4))"
proof -
  obtain out where
    out: "mark_obsolete_and_place tie_frame [''category'', ''character''] = Inr out"
    and ob: "map obsolete out = [False, False, False, False, True]"
    and pl: "map place out = [Some 1, Some 1, Some 3, Some 4, None]"
    using tie_frame_ranked by (elim exE conjE)
  have "length (map obsolete out) = 5" by (simp add: ob)
  then have len: "length out = 5" by simp
  have "\<not> map obsolete out ! 2" "map obsolete out ! 4" by (simp_all add: ob)
  then have n2: "\<not> obsolete (out ! 2)" and o4: "obsolete (out ! 4)"
    using len by simp_all
  have l2: "2 < length tie_frame" "4 < length tie_frame" by (simp_all add: tie_frame_def)
  have "place (out ! 2) =
        Some (1 + card {j. j < length out \<and> \<not> obsolete (out ! j) \<and>
                           same_group [''category'', ''character''] (out ! j) (out ! 2) \<and>
                           strictly_faster (out ! j) (out ! 2)})"
    and "place (out ! 4) = place (tie_frame ! 4)"
    using ranking_pass_competition_places[of "[''category'', ''character'']" tie_frame] out l2 n2 o4
    by simp_all
  with out ob pl show ?thesis by (intro conjI exI[of _ out]) simp_all
qed

subsection \<open>Groups and cohorts of one record\<close>

lemma single_cohort_not_obsolete:
  fixes df :: "('t::linorder) frame"
  assumes i: "i < length df" and nn: "non_null cols (df ! i)"
    and single: "\<forall>j<length df. same_cohort cols (df ! j) (df ! i) \<longrightarrow> j = i"
  shows "\<not> obsolete (mark_obsolete_runs df cols ! i)"
proof -
  from nn obtain t where t: "primary_t (df ! i) = Some t" by (auto simp: non_null_def)
  have "cohort_durations cols df (df ! i) = {t}"
  proof (rule antisym; rule subsetI)
    fix t' assume "t' \<in> cohort_durations cols df (df ! i)"
    then obtain r' where r': "r' \<in> set df" "same_cohort cols r' (df ! i)" "primary_t r' = Some t'"
      by (auto simp: cohort_durations_eq)
    from r'(1) obtain j where j: "j < length df" "df ! j = r'" by (auto simp: in_set_conv_nth)
    with single r'(2) have "j = i" by blast
    with j r'(3) t show "t' \<in> {t}" by simp
  next
    fix t' assume "t' \<in> {t}"
    then show "t' \<in> cohort_durations cols df (df ! i)"
      using i t by (auto simp: cohort_durations_eq same_cohort_def same_group_def)
  qed
  then have "transform_min (cols @ [''player_id'', ''note'']) df (df ! i) = Some t"
    using transform_min_cohort[of "df ! i" df cols] i nn by simp
  then show ?thesis using i t by (simp add: nth_mark_obsolete_runs)
qed

text \<open>A record without an attributed player belongs to no cohort: the passes mark it
  obsolete and leave its place as it was, whatever else the frame holds.\<close>

lemma null_player_obsolete:
  fixes df :: "('t::linorder) frame"
  assumes "mark_obsolete_and_place df cols = Inr out" "i < length df"
    and "cell (df ! i) ''player_id'' = None"
  shows "obsolete (out ! i) \<and> place (out ! i) = place (df ! i)"
proof -
  have "obsolete (out ! i)"
  proof (rule ccontr)
    assume "\<not> obsolete (out ! i)"
    with assms(1,2) have "non_null cols (df ! i)" by (rule ranked_row(7))
    with assms(3) show False by (simp add: non_null_def)
  qed
  then show ?thesis using ranked_row(5)[OF assms(1,2)] by simp
qed

lemma player_id_of_clean_run: "cell (clean_run run) ''player_id'' = player_id_of (run_players run)"
  by (simp add: clean_run_def)

lemma single_run_without_player:
  "map_sum id (map (\<lambda>r. (obsolete r, place r)))
     (mark_obsolete_and_place [clean_run anonymous_run] [''category'', ''character'']) =
   Inr [(True, None)]"
  "map_sum id (map (\<lambda>r. (obsolete r, place r)))
     (mark_obsolete_and_place [clean_run guest_run] [''category'', ''character'']) =
   Inr [(True, None)]"
  by (simp_all add: clean_run_def anonymous_run_def guest_run_def rank_eval_defs)

text \<open>C9, as the code has it. For a non-empty list of grouping columns and a record
  with no null among the grouping columns, \<open>player_id\<close>, \<open>note\<close> and \<open>primary_t\<close>: when
  the record is the only one of its player-note cohort it is left non-obsolete, and its
  place is 1 plus the number of strictly faster non-obsolete records of its group; when it
  is the only record of its group it is left non-obsolete with place 1.\<close>

theorem single_record_group_or_cohort:
  fixes df :: "('t::linorder) frame"
  assumes cols: "cols \<noteq> []" and i: "i < length df" and nn: "non_null cols (df ! i)"
  shows "\<exists>out. mark_obsolete_and_place df cols = Inr out \<and>
    ((\<forall>j<length df. same_cohort cols (df ! j) (df ! i) \<longrightarrow> j = i) \<longrightarrow>
       \<not> obsolete (out ! i) \<and>
       place (out ! i) =
         Some (1 + card {j. j < length out \<and> \<not> obsolete (out ! j) \<and>
                            same_group cols (out ! j) (out ! i) \<and>
                            strictly_faster (out ! j) (out ! i)})) \<and>
    ((\<forall>j<length df. same_group cols (df ! j) (df ! i) \<longrightarrow> j = i) \<longrightarrow>
       \<not> obsolete (out ! i) \<and> place (out ! i) = Some 1)"
proof -
  from cols obtain out where out: "mark_obsolete_and_place df cols = Inr out"
    using mark_obsolete_and_place_returns by blast
  note row = ranked_row[OF out]
  have cohort: "\<not> obsolete (out ! i)"
    if "\<forall>j<length df. same_cohort cols (df ! j) (df ! i) \<longrightarrow> j = i"
    using single_cohort_not_obsolete[OF i nn that] row(4)[OF i] by simp
  have group: "\<not> obsolete (out ! i) \<and> place (out ! i) = Some 1"
    if single: "\<forall>j<length df. same_group cols (df ! j) (df ! i) \<longrightarrow> j = i"
  proof -
    from single have "\<forall>j<length df. same_cohort cols (df ! j) (df ! i) \<longrightarrow> j = i"
      by (simp add: same_cohort_def)
    then have no: "\<not> obsolete (out ! i)" by (rule cohort)
    have "{j. j < length out \<and> \<not> obsolete (out ! j) \<and> same_group cols (out ! j) (out ! i) \<and>
              strictly_faster (out ! j) (out ! i)} = {}"
    proof (rule ccontr)
      assume "{j. j < length out \<and> \<not> obsolete (out ! j) \<and> same_group cols (out ! j) (out ! i) \<and>
                  strictly_faster (out ! j) (out ! i)} \<noteq> {}"
      then obtain j where j: "j < length out" "same_group cols (out ! j) (out ! i)"
        "strictly_faster (out ! j) (out ! i)" by blast
      from j(1) have jd: "j < length df" using row(1)[OF i] by simp
      have "same_group cols (df ! j) (df ! i)"
        using j(2) row(2)[OF i] row(2)[OF jd] by (simp add: same_group_def)
      with single jd have "j = i" by blast
      with j(3) show False by (simp add: strictly_faster_def split: option.splits)
    qed
    with row(6)[OF i no] no show ?thesis by simp
  qed
  show ?thesis
    using out cohort group row(6)[OF i] by (intro exI[of _ out]) blast
qed

theorem single_record_group_or_cohort_witness:
  "[''category'', ''character''] \<noteq> [] \<and>
   non_null [''category'', ''character''] (scenario_row ''P'' ''All'' 10) \<and>
   non_null [''category'', ''character''] (two_player_frame ! 1) \<and>
   filter (\<lambda>r. same_group [''category'', ''character''] r (scenario_row ''P'' ''All'' 10))
     [scenario_row ''P'' ''All'' 10] = [scenario_row ''P'' ''All'' 10] \<and>
   (\<exists>out. mark_obsolete_and_place [scenario_row ''P'' ''All'' 10] [''category'', ''character''] = Inr out \<and>
          \<not> obsolete (out ! 0) \<and> place (out ! 0) = Some 1) \<and>
   length (filter (\<lambda>r. same_cohort [''category'', ''character''] r (two_player_frame ! 1))
     two_player_frame) = 1 \<and>
   (\<exists>out. mark_obsolete_and_place two_player_frame [''category'', ''character''] = Inr out \<and>
          \<not> obsolete (out ! 1) \<and>
          place (out ! 1) =
            Some (1 + card {j. j < length out \<and> \<not> obsolete (out ! j) \<and>
                               same_group [''category'', ''character''] (out ! j) (out ! 1) \<and>
                               strictly_faster (out ! j) (out ! 1)}))"
proof -
  let ?cols = "[''category'', ''character'']"
  let ?one = "[scenario_row ''P'' ''All'' 10]"
  have c: "?cols \<noteq> []" by simp
  have n0: "non_null ?cols (scenario_row ''P'' ''All'' 10)"
    and n1: "non_null ?cols (two_player_frame ! 1)"
    and n: "non_null ?cols (?one ! 0)"
    by (simp_all add: two_player_frame_def scenario_row_def non_null_def)
  have g: "\<forall>j<length ?one. same_group ?cols (?one ! j) (?one ! 0) \<longrightarrow> j = 0" by simp
  have k: "\<forall>j<length two_player_frame.
             same_cohort ?cols (two_player_frame ! j) (two_player_frame ! 1) \<longrightarrow> j = 1"
    by (simp add: two_player_frame_def scenario_row_def same_cohort_def same_group_def
          less_Suc_eq numeral_2_eq_2)
  have f: "filter (\<lambda>r. same_group ?cols r (scenario_row ''P'' ''All'' 10)) ?one = ?one"
    by (simp add: same_group_def)
  have l: "length (filter (\<lambda>r. same_cohort ?cols r (two_player_frame ! 1)) two_player_frame) = 1"
    by (simp add: two_player_frame_def scenario_row_def same_cohort_def same_group_def)
  have a: "\<exists>out. mark_obsolete_and_place ?one ?cols = Inr out \<and>
            \<not> obsolete (out ! 0) \<and> place (out ! 0) = Some 1"
    using single_record_group_or_cohort[OF c _ n] g by fastforce
  have b: "\<exists>out. mark_obsolete_and_place two_player_frame ?cols = Inr out \<and>
            \<not> obsolete (out ! 1) \<and>
            place (out ! 1) =
              Some (1 + card {j. j < length out \<and> \<not> obsolete (out ! j) \<and>
                                 same_group ?cols (out ! j) (out ! 1) \<and>
                                 strictly_faster (out ! j) (out ! 1)})"
    using single_record_group_or_cohort[OF c _ n1] k
    by (fastforce simp: two_player_frame_def)
  from c n0 n1 f a l b show ?thesis by (intro conjI)
qed

text \<open>A cohort of one record in a group of two: the record of the second player is
  the only one of its cohort, it is not obsolete, and its place is 2.\<close>

theorem single_record_cohort_counterexample:
  "length (filter (\<lambda>r. same_cohort [''category'', ''character''] r (two_player_frame ! 1))
     two_player_frame) = 1 \<and>
   map_sum id (map (\<lambda>r. (obsolete r, place r)))
     (mark_obsolete_and_place two_player_frame [''category'', ''character'']) =
   Inr [(False, Some 1), (False, Some 2)]"
  by (simp add: two_player_frame_def same_cohort_def same_group_def rank_eval_defs)

section \<open>Properties of the fetch client\<close>

lemma http_get_fields [simp]:
  "sent (snd (http_get url w)) = Suc (sent w)"
  "events (snd (http_get url w)) = events w @ [Get url]"
  "server (snd (http_get url w)) = server w"
  "files (snd (http_get url w)) = files w"
  "read_only (snd (http_get url w)) = read_only w"
  "fst (http_get url w) = server w (sent w) url"
  by (simp_all add: http_get_def)

lemma write_json_fields [simp]:
  "sent (snd (write_json path data w)) = sent w"
  "events (snd (write_json path data w)) = events w"
  "server (snd (write_json path data w)) = server w"
  "read_only (snd (write_json path data w)) = read_only w"
  by (simp_all add: write_json_def)

text \<open>What one run of the attempt loop adds to the world: \<open>k\<close> requests, the request of
  the attempt \<open>i\<close> at position \<open>2 * i\<close> of the new part of the events, and after each failed
  attempt, at position \<open>2 * i + 1\<close>, the sleep that \<open>retry_delay\<close> asks for (when that
  is a duration \<open>time.sleep\<close> accepts).\<close>

lemma attempts_trace:
  "attempts url cache_file backoff_sec [a..<a + n] last_exc w = (res, w') \<Longrightarrow>
   \<exists>k tr. k \<le> n \<and> sent w' = sent w + k \<and> server w' = server w \<and> events w' = events w @ tr \<and>
     length tr \<le> 2 * k \<and>
     (\<forall>i<k. 2 * i < length tr \<and> tr ! (2 * i) = Get url) \<and>
     (\<forall>i<k. \<forall>e. server w (sent w + i) url = Failure e \<longrightarrow>
        0 \<le> retry_delay e backoff_sec (a + i) \<longrightarrow>
        2 * i + 1 < length tr \<and> tr ! (2 * i + 1) = Sleep (retry_delay e backoff_sec (a + i)))"
proof (induction n arbitrary: a last_exc w)
  case 0
  then show ?case by simp
next
  case (Suc n)
  have upt: "[a..<a + Suc n] = a # [Suc a..<Suc a + n]" by (simp add: upt_rec)
  obtain r w1 where g: "http_get url w = (r, w1)" by (cases "http_get url w")
  then have r: "r = server w (sent w) url"
    and w1: "sent w1 = Suc (sent w)" "events w1 = events w @ [Get url]" "server w1 = server w"
    by (auto simp: http_get_def)
  show ?case
  proof (cases r)
    case (Success payload)
    with Suc.prems g upt have "sent w' = sent w + 1" "server w' = server w" "events w' = events w @ [Get url]"
      using w1 by (auto simp: Let_def split: option.splits)
    moreover have "server w (sent w) url = Success payload" using r Success by simp
    ultimately show ?thesis
      by (intro exI[of _ 1] exI[of _ "[Get url]"]) simp
  next
    case (Failure e)
    let ?d = "retry_delay e backoff_sec a"
    show ?thesis
    proof (cases "?d < 0")
      case True
      with Suc.prems g upt Failure have "w' = w1" by (simp add: sleep_def)
      moreover have "server w (sent w) url = Failure e" using r Failure by simp
      ultimately show ?thesis using True w1
        by (intro exI[of _ 1] exI[of _ "[Get url]"]) simp
    next
      case False
      let ?w2 = "w1\<lparr>events := events w1 @ [Sleep ?d]\<rparr>"
      from Suc.prems g upt Failure False
      have "attempts url cache_file backoff_sec [Suc a..<Suc a + n] (Some e) ?w2 = (res, w')"
        by (simp add: sleep_def)
      from Suc.IH[OF this] obtain k tr where
        k: "k \<le> n" "sent w' = sent ?w2 + k" "server w' = server ?w2" "events w' = events ?w2 @ tr"
          "length tr \<le> 2 * k"
        and gets: "\<forall>i<k. 2 * i < length tr \<and> tr ! (2 * i) = Get url"
        and sleeps: "\<forall>i<k. \<forall>e. server ?w2 (sent ?w2 + i) url = Failure e \<longrightarrow>
              0 \<le> retry_delay e backoff_sec (Suc a + i) \<longrightarrow>
              2 * i + 1 < length tr \<and> tr ! (2 * i + 1) = Sleep (retry_delay e backoff_sec (Suc a + i))"
        by blast
      let ?tr = "Get url # Sleep ?d # tr"
      have a1: "\<forall>i<Suc k. 2 * i < length ?tr \<and> ?tr ! (2 * i) = Get url"
      proof (intro allI impI)
        fix i assume "i < Suc k"
        then show "2 * i < length ?tr \<and> ?tr ! (2 * i) = Get url"
          using gets by (cases i) auto
      qed
      have a2: "\<forall>i<Suc k. \<forall>e'. server w (sent w + i) url = Failure e' \<longrightarrow>
              0 \<le> retry_delay e' backoff_sec (a + i) \<longrightarrow>
              2 * i + 1 < length ?tr \<and> ?tr ! (2 * i + 1) = Sleep (retry_delay e' backoff_sec (a + i))"
      proof (intro allI impI)
        fix i e' assume i: "i < Suc k" and e': "server w (sent w + i) url = Failure e'"
          and d: "0 \<le> retry_delay e' backoff_sec (a + i)"
        show "2 * i + 1 < length ?tr \<and> ?tr ! (2 * i + 1) = Sleep (retry_delay e' backoff_sec (a + i))"
        proof (cases i)
          case 0
          have "server w (sent w) url = Failure e" using r Failure by simp
          with 0 e' show ?thesis by simp
        next
          case (Suc i')
          with i e' d sleeps w1 have "2 * i' + 1 < length tr \<and>
              tr ! (2 * i' + 1) = Sleep (retry_delay e' backoff_sec (Suc a + i'))"
            by simp
          with Suc show ?thesis by simp
        qed
      qed
      have "sent w' = sent w + Suc k" "server w' = server w" "events w' = events w @ ?tr"
        "length ?tr \<le> 2 * Suc k" "Suc k \<le> Suc n"
        using k w1 by simp_all
      with a1 a2 show ?thesis by blast
    qed
  qed
qed

lemma fetch_api_cached_attempts:
  assumes "fetch_api_cached url cache_file max_retries backoff_sec w = (res, w')"
  shows "\<exists>r. attempts url cache_file backoff_sec [0..<0 + nat (max_retries + 1)] None w = (r, w')"
proof -
  obtain r w1 where a: "attempts url cache_file backoff_sec [0..<nat (max_retries + 1)] None w = (r, w1)"
    by (cases "attempts url cache_file backoff_sec [0..<nat (max_retries + 1)] None w")
  with assms have "w1 = w'"
    by (auto simp: fetch_api_cached_def split: attempts_result.splits option.splits disk_file.splits)
  with a show ?thesis by simp
qed

lemma fetch_api_cached_trace:
  assumes "fetch_api_cached url cache_file max_retries backoff_sec w = (res, w')"
  shows "\<exists>k tr. k \<le> nat (max_retries + 1) \<and> sent w' = sent w + k \<and> server w' = server w \<and>
     events w' = events w @ tr \<and> length tr \<le> 2 * k \<and>
     (\<forall>i<k. 2 * i < length tr \<and> tr ! (2 * i) = Get url) \<and>
     (\<forall>i<k. \<forall>e. server w (sent w + i) url = Failure e \<longrightarrow>
        0 \<le> retry_delay e backoff_sec i \<longrightarrow>
        2 * i + 1 < length tr \<and> tr ! (2 * i + 1) = Sleep (retry_delay e backoff_sec i))"
proof -
  from fetch_api_cached_attempts[OF assms] obtain r where
    "attempts url cache_file backoff_sec [0..<0 + nat (max_retries + 1)] None w = (r, w')" ..
  from attempts_trace[OF this] show ?thesis by simp
qed

lemma retry_delay_backoff:
  "\<not> rate_limited e \<Longrightarrow> retry_delay e backoff_sec i = backoff_sec * (real i + 1)"
  by (cases e) simp_all

lemma retry_delay_rate_limited:
  "retry_delay (Http_status 429 hdr) backoff_sec i = real_of_int (retry_after_seconds hdr)"
  by simp

text \<open>C6. A call sends at most \<open>max_retries + 1\<close> requests. The attempt with index \<open>i\<close>
  is the event \<open>2 * i\<close> of the call; when it fails without the rate-limit status 429, the
  next event, before any further attempt, is a sleep of exactly \<open>backoff_sec * (i + 1)\<close>
  seconds: the delay grows linearly with the attempt. (\<open>time.sleep\<close> takes no negative
  duration, so this is for \<open>backoff_sec \<ge> 0\<close>.)\<close>

theorem fetch_api_cached_linear_backoff:
  assumes "fetch_api_cached url cache_file max_retries backoff_sec w = (res, w')"
  shows "\<exists>k tr. k \<le> nat (max_retries + 1) \<and> sent w' = sent w + k \<and>
     events w' = events w @ tr \<and> length tr \<le> 2 * k \<and>
     (\<forall>i<k. 2 * i < length tr \<and> tr ! (2 * i) = Get url) \<and>
     (\<forall>i<k. \<forall>e. server w (sent w + i) url = Failure e \<and> \<not> rate_limited e \<and> 0 \<le> backoff_sec \<longrightarrow>
        2 * i + 1 < length tr \<and> tr ! (2 * i + 1) = Sleep (backoff_sec * (real i + 1)))"
proof -
  from fetch_api_cached_trace[OF assms] obtain k tr where
    k: "k \<le> nat (max_retries + 1)" "sent w' = sent w + k" "events w' = events w @ tr"
      "length tr \<le> 2 * k" "\<forall>i<k. 2 * i < length tr \<and> tr ! (2 * i) = Get url"
    and sl: "\<forall>i<k. \<forall>e. server w (sent w + i) url = Failure e \<longrightarrow>
        0 \<le> retry_delay e backoff_sec i \<longrightarrow>
        2 * i + 1 < length tr \<and> tr ! (2 * i + 1) = Sleep (retry_delay e backoff_sec i)"
    by blast
  have "\<forall>i<k. \<forall>e. server w (sent w + i) url = Failure e \<and> \<not> rate_limited e \<and> 0 \<le> backoff_sec \<longrightarrow>
        2 * i + 1 < length tr \<and> tr ! (2 * i + 1) = Sleep (backoff_sec * (real i + 1))"
  proof (intro allI impI)
    fix i e
    assume i: "i < k"
      and h: "server w (sent w + i) url = Failure e \<and> \<not> rate_limited e \<and> 0 \<le> backoff_sec"
    then have d: "retry_delay e backoff_sec i = backoff_sec * (real i + 1)"
      by (simp add: retry_delay_backoff)
    with h have "0 \<le> retry_delay e backoff_sec i" by simp
    with sl i h d show "2 * i + 1 < length tr \<and> tr ! (2 * i + 1) = Sleep (backoff_sec * (real i + 1))"
      by metis
  qed
  with k show ?thesis by blast
qed

lemma down_server_run:
  "fetch_api_cached categories_url None 2 2 (fresh_world down_server Map.empty) =
     (Inl (Fetch_failed categories_url (Some No_response)),
      (fresh_world down_server Map.empty :: (string, string list) world)
        \<lparr>sent := 3,
         events := [Get categories_url, Sleep 2, Get categories_url, Sleep 4,
                    Get categories_url, Sleep 6]\<rparr>)"
  by (simp add: fetch_api_cached_def fresh_world_def down_server_def http_get_def sleep_def
        upt_rec numeral_3_eq_3)

theorem fetch_api_cached_linear_backoff_witness:
  "fetch_api_cached categories_url None 2 2 (fresh_world down_server Map.empty) =
     (Inl (Fetch_failed categories_url (Some No_response)),
      (fresh_world down_server Map.empty :: (string, string list) world)
        \<lparr>sent := 3,
         events := [Get categories_url, Sleep 2, Get categories_url, Sleep 4,
                    Get categories_url, Sleep 6]\<rparr>) \<and>
   (\<exists>k tr. k \<le> nat (2 + 1) \<and> k = 3 \<and>
      tr = [Get categories_url, Sleep 2, Get categories_url, Sleep 4, Get categories_url, Sleep 6] \<and>
      tr ! (2 * 2 + 1) = Sleep (2 * (real 2 + 1)))"
proof -
  let ?w = "fresh_world down_server Map.empty :: (string, string list) world"
  note run = down_server_run
  from fetch_api_cached_linear_backoff[OF run] obtain k tr where
    k: "k \<le> nat (2 + 1)" "sent (?w\<lparr>sent := 3,
         events := [Get categories_url, Sleep 2, Get categories_url, Sleep 4,
                    Get categories_url, Sleep 6]\<rparr>) = sent ?w + k"
      "events (?w\<lparr>sent := 3,
         events := [Get categories_url, Sleep 2, Get categories_url, Sleep 4,
                    Get categories_url, Sleep 6]\<rparr>) = events ?w @ tr"
    and sl: "\<forall>i<k. \<forall>e. server ?w (sent ?w + i) categories_url = Failure e \<and> \<not> rate_limited e \<and>
               0 \<le> (2::real) \<longrightarrow>
        2 * i + 1 < length tr \<and> tr ! (2 * i + 1) = Sleep (2 * (real i + 1))"
    by blast
  from k(2) have k3: "k = 3" by (simp add: fresh_world_def)
  from k(3) have tr: "tr = [Get categories_url, Sleep 2, Get categories_url, Sleep 4,
                    Get categories_url, Sleep 6]" by (simp add: fresh_world_def)
  have "server ?w (sent ?w + 2) categories_url = Failure No_response \<and> \<not> rate_limited No_response \<and>
        0 \<le> (2::real)"
    by (simp add: fresh_world_def down_server_def)
  with sl k3 have "tr ! (2 * 2 + 1) = Sleep (2 * (real 2 + 1))" by (metis lessI numeral_3_eq_3 numeral_2_eq_2)
  with run k(1) k3 tr show ?thesis by blast
qed

lemma attempts_rate_limited_then_success:
  assumes "server w (sent w) url = Failure (Http_status 429 (Seconds 3))"
    and "server w (Suc (sent w)) url = Success payload"
  shows "fst (attempts url cache_file backoff_sec (a # a' # rest) last_exc w) =
           Returned (payload_data payload)"
    and "events (snd (attempts url cache_file backoff_sec (a # a' # rest) last_exc w)) =
           events w @ [Get url, Sleep 3, Get url]"
  using assms
  by (simp_all add: http_get_def sleep_def Let_def write_json_def split: option.splits)

lemma nat_retries:
  assumes "0 < (m::int)"
  shows "\<exists>rest. [0..<nat (m + 1)] = 0 # 1 # rest"
proof -
  from assms have "2 \<le> nat (m + 1)" by simp
  then obtain j where "nat (m + 1) = Suc (Suc j)"
    by (metis Suc_le_D numeral_2_eq_2 Suc_le_mono)
  then show ?thesis by (simp add: upt_rec)
qed

text \<open>When the attempt with index \<open>i\<close> fails with status 429, and the \<open>Retry-After\<close>
  header is a number of seconds that is not negative, the next event of the call, before
  any further attempt, is a sleep of exactly that number of seconds; it is a sleep of 1
  second when the header is absent or is not an integer. When the first attempt fails with
  429 and \<open>Retry-After: 3\<close> and the second succeeds, the call consists of the request,
  one sleep of 3 seconds and the second request, and returns the \<open>data\<close> member of the
  second body.\<close>

lemma retry_after_sleep:
  assumes "fetch_api_cached url cache_file max_retries backoff_sec w = (res, w')"
  shows "(\<exists>k tr. k \<le> nat (max_retries + 1) \<and> sent w' = sent w + k \<and>
       events w' = events w @ tr \<and>
       (\<forall>i<k. \<forall>hdr. server w (sent w + i) url = Failure (Http_status 429 hdr) \<longrightarrow>
          2 * i < length tr \<and> tr ! (2 * i) = Get url \<and>
          (\<forall>n. hdr = Seconds n \<and> 0 \<le> n \<longrightarrow>
             2 * i + 1 < length tr \<and> tr ! (2 * i + 1) = Sleep (real_of_int n)) \<and>
          (hdr = Absent \<or> hdr = Unparsable \<longrightarrow>
             2 * i + 1 < length tr \<and> tr ! (2 * i + 1) = Sleep 1))) \<and>
    (\<forall>payload. 0 < max_retries \<and> server w (sent w) url = Failure (Http_status 429 (Seconds 3)) \<and>
        server w (Suc (sent w)) url = Success payload \<longrightarrow>
        res = Inr (payload_data payload) \<and> events w' = events w @ [Get url, Sleep 3, Get url])"
proof (intro conjI allI impI)
  from fetch_api_cached_trace[OF assms] obtain k tr where
    k: "k \<le> nat (max_retries + 1)" "sent w' = sent w + k" "events w' = events w @ tr"
      "\<forall>i<k. 2 * i < length tr \<and> tr ! (2 * i) = Get url"
    and sl: "\<forall>i<k. \<forall>e. server w (sent w + i) url = Failure e \<longrightarrow>
        0 \<le> retry_delay e backoff_sec i \<longrightarrow>
        2 * i + 1 < length tr \<and> tr ! (2 * i + 1) = Sleep (retry_delay e backoff_sec i)"
    by blast
  have "\<forall>i<k. \<forall>hdr. server w (sent w + i) url = Failure (Http_status 429 hdr) \<longrightarrow>
          2 * i < length tr \<and> tr ! (2 * i) = Get url \<and>
          (\<forall>n. hdr = Seconds n \<and> 0 \<le> n \<longrightarrow>
             2 * i + 1 < length tr \<and> tr ! (2 * i + 1) = Sleep (real_of_int n)) \<and>
          (hdr = Absent \<or> hdr = Unparsable \<longrightarrow>
             2 * i + 1 < length tr \<and> tr ! (2 * i + 1) = Sleep 1)"
  proof (intro allI impI)
    fix i hdr
    assume i: "i < k" and f: "server w (sent w + i) url = Failure (Http_status 429 hdr)"
    from sl i f have s: "0 \<le> retry_after_seconds hdr \<Longrightarrow>
        2 * i + 1 < length tr \<and> tr ! (2 * i + 1) = Sleep (real_of_int (retry_after_seconds hdr))"
      by fastforce
    have "\<forall>n. hdr = Seconds n \<and> 0 \<le> n \<longrightarrow>
             2 * i + 1 < length tr \<and> tr ! (2 * i + 1) = Sleep (real_of_int n)"
      using s by auto
    moreover have "hdr = Absent \<or> hdr = Unparsable \<longrightarrow>
             2 * i + 1 < length tr \<and> tr ! (2 * i + 1) = Sleep 1"
      using s by auto
    ultimately show "2 * i < length tr \<and> tr ! (2 * i) = Get url \<and>
          (\<forall>n. hdr = Seconds n \<and> 0 \<le> n \<longrightarrow>
             2 * i + 1 < length tr \<and> tr ! (2 * i + 1) = Sleep (real_of_int n)) \<and>
          (hdr = Absent \<or> hdr = Unparsable \<longrightarrow>
             2 * i + 1 < length tr \<and> tr ! (2 * i + 1) = Sleep 1)"
      using k(4) i by blast
  qed
  with k show "\<exists>k tr. k \<le> nat (max_retries + 1) \<and> sent w' = sent w + k \<and>
       events w' = events w @ tr \<and>
       (\<forall>i<k. \<forall>hdr. server w (sent w + i) url = Failure (Http_status 429 hdr) \<longrightarrow>
          2 * i < length tr \<and> tr ! (2 * i) = Get url \<and>
          (\<forall>n. hdr = Seconds n \<and> 0 \<le> n \<longrightarrow>
             2 * i + 1 < length tr \<and> tr ! (2 * i + 1) = Sleep (real_of_int n)) \<and>
          (hdr = Absent \<or> hdr = Unparsable \<longrightarrow>
             2 * i + 1 < length tr \<and> tr ! (2 * i + 1) = Sleep 1))"
    by blast
next
  fix payload
  assume h: "0 < max_retries \<and> server w (sent w) url = Failure (Http_status 429 (Seconds 3)) \<and>
        server w (Suc (sent w)) url = Success payload"
  then have "0 < max_retries" by blast
  then obtain rest where upt: "[0..<nat (max_retries + 1)] = 0 # 1 # rest"
    using nat_retries by blast
  let ?a = "attempts url cache_file backoff_sec (0 # 1 # rest) None w"
  from h have s0: "server w (sent w) url = Failure (Http_status 429 (Seconds 3))"
    and s1: "server w (Suc (sent w)) url = Success payload" by blast+
  have f: "fst ?a = Returned (payload_data payload)"
    by (rule attempts_rate_limited_then_success(1)[OF s0 s1])
  have e: "events (snd ?a) = events w @ [Get url, Sleep 3, Get url]"
    by (rule attempts_rate_limited_then_success(2)[OF s0 s1])
  have "fetch_api_cached url cache_file max_retries backoff_sec w =
          (Inr (payload_data payload), snd ?a)"
    unfolding fetch_api_cached_def upt using f by (cases ?a) simp
  with assms have "res = Inr (payload_data payload)" "w' = snd ?a" by simp_all
  with e show "res = Inr (payload_data payload)"
    and "events w' = events w @ [Get url, Sleep 3, Get url]" by simp_all
qed

lemma three_attempts: "[0..<nat (2 + 1)] = [0, 1, 2]"
  by (simp add: upt_rec numeral_3_eq_3)

lemma busy_server_run:
  "fetch_api_cached categories_url None 2 2 (fresh_world busy_server Map.empty) =
     (Inr (Some [''Any%'', ''All Levels'']),
      (fresh_world busy_server Map.empty)
        \<lparr>sent := 2, events := [Get categories_url, Sleep 3, Get categories_url]\<rparr>)"
  unfolding fetch_api_cached_def three_attempts
  by (simp add: fresh_world_def busy_server_def http_get_def sleep_def)

lemma retry_after_scenario:
  "fetch_api_cached categories_url None 2 2 (fresh_world busy_server Map.empty) =
     (Inr (Some [''Any%'', ''All Levels'']),
      (fresh_world busy_server Map.empty)
        \<lparr>sent := 2, events := [Get categories_url, Sleep 3, Get categories_url]\<rparr>) \<and>
   (0::int) < 2 \<and>
   busy_server 0 categories_url = Failure (Http_status 429 (Seconds 3)) \<and>
   busy_server (Suc 0) categories_url = Success (With_data (Some [''Any%'', ''All Levels''])) \<and>
   (Inr (Some [''Any%'', ''All Levels'']) :: string error + string list option) =
     Inr (payload_data (With_data (Some [''Any%'', ''All Levels''])))"
proof -
  let ?w = "fresh_world busy_server Map.empty :: (string, string list) world"
  let ?p = "With_data (Some [''Any%'', ''All Levels''])"
  note run = busy_server_run
  have b: "busy_server 0 categories_url = Failure (Http_status 429 (Seconds 3))"
    "busy_server (Suc 0) categories_url = Success ?p"
    by (simp_all add: busy_server_def)
  then have "0 < (2::int) \<and>
      server ?w (sent ?w) categories_url = Failure (Http_status 429 (Seconds 3)) \<and>
      server ?w (Suc (sent ?w)) categories_url = Success ?p"
    by (simp add: fresh_world_def)
  from retry_after_sleep[OF run, THEN conjunct2, rule_format, OF this]
  have c: "(Inr (Some [''Any%'', ''All Levels'']) :: string error + string list option) =
     Inr (payload_data ?p)"
    by (rule conjunct1)
  show ?thesis by (intro conjI run b c) simp
qed

text \<open>A negative number of seconds in the header reaches \<open>time.sleep\<close> as it is: the
  \<open>ValueError\<close> leaves the call after the failed request, without a sleep, a further
  attempt or a look at the cache file.\<close>

lemma retry_after_below_zero:
  assumes "server w (sent w) url = Failure (Http_status 429 (Seconds n))" and "n < 0"
    and "0 \<le> max_retries"
  shows "fetch_api_cached url cache_file max_retries backoff_sec w =
           (Inl Negative_sleep, w\<lparr>sent := Suc (sent w), events := events w @ [Get url]\<rparr>)"
proof -
  from assms(3) obtain m where "nat (max_retries + 1) = Suc m"
    by (metis Suc_nat_eq_nat_zadd1 add.commute)
  then have "[0..<nat (max_retries + 1)] = 0 # [1..<Suc m]" by (simp add: upt_rec)
  then show ?thesis
    using assms(1,2) by (simp add: fetch_api_cached_def http_get_def sleep_def)
qed

text \<open>C7, at a response 429 with \<open>Retry-After: -1\<close>: the call raises after its first
  request. Nothing is slept, the second attempt (which the server would answer) is not
  made, and a cache file that is there is not read.\<close>

theorem negative_retry_after_raises:
  "fetch_api_cached categories_url None 2 2 (fresh_world hasty_server Map.empty) =
     (Inl Negative_sleep,
      (fresh_world hasty_server Map.empty)\<lparr>sent := 1, events := [Get categories_url]\<rparr>) \<and>
   fetch_api_cached categories_url (Some ''categories.json'') 2 2 (fresh_world hasty_server catalog_disk) =
     (Inl Negative_sleep,
      (fresh_world hasty_server catalog_disk)\<lparr>sent := 1, events := [Get categories_url]\<rparr>) \<and>
   hasty_server (Suc 0) categories_url = Success (With_data (Some [''Any%'', ''All Levels'']))"
  unfolding fetch_api_cached_def three_attempts
  by (simp add: fresh_world_def hasty_server_def http_get_def sleep_def)

section \<open>Properties of the collector and of the repository\<close>

subsection \<open>A fetch without cache file leaves the disk alone\<close>

lemma attempts_no_cache:
  "attempts url None backoff_sec as last_exc w = (res, w') \<Longrightarrow>
   files w' = files w \<and> read_only w' = read_only w"
proof (induction as arbitrary: last_exc w)
  case Nil
  then show ?case by simp
next
  case (Cons a as)
  obtain r w1 where g: "http_get url w = (r, w1)" by (cases "http_get url w")
  then have w1: "files w1 = files w" "read_only w1 = read_only w"
    by (auto simp: http_get_def)
  show ?case
  proof (cases r)
    case (Success payload)
    with Cons.prems g w1 show ?thesis by (auto simp: Let_def)
  next
    case (Failure e)
    show ?thesis
    proof (cases "retry_delay e backoff_sec a < 0")
      case True
      with Cons.prems g Failure w1 show ?thesis by (auto simp: sleep_def)
    next
      case False
      let ?w2 = "w1\<lparr>events := events w1 @ [Sleep (retry_delay e backoff_sec a)]\<rparr>"
      from Cons.prems g Failure False
      have "attempts url None backoff_sec as (Some e) ?w2 = (res, w')"
        by (simp add: sleep_def)
      from Cons.IH[OF this] w1 show ?thesis by simp
    qed
  qed
qed

lemma fetch_api_cached_no_cache:
  assumes "fetch_api_cached url None max_retries backoff_sec w = (res, w')"
  shows "files w' = files w \<and> read_only w' = read_only w"
proof -
  from fetch_api_cached_attempts[OF assms] obtain r where
    "attempts url None backoff_sec [0..<0 + nat (max_retries + 1)] None w = (r, w')" ..
  then show ?thesis by (rule attempts_no_cache)
qed

lemma get_runs_no_cache:
  "get_runs self game_id offset max_arg None w = (res, w') \<Longrightarrow>
   files w' = files w \<and> read_only w' = read_only w"
  unfolding get_runs_def Let_def by (rule fetch_api_cached_no_cache)

lemma get_all_runs_loop_no_cache:
  assumes run: "get_all_runs_loop self game_id None max_pages page_size offset all_runs
             pages_fetched w = Some y"
  shows "files (snd y) = files w \<and> read_only (snd y) = read_only w"
proof -
  let ?P = "\<lambda>(self :: api_client) (game_id :: string) (cache_file :: string option)
              (max_pages :: int option) (page_size :: int option) (offset :: int)
              (all_runs :: 'a list) (pages_fetched :: int) (w :: (runs_url, 'a list) world)
              (y :: (runs_url error + 'a list) \<times> (runs_url, 'a list) world).
              cache_file = None \<longrightarrow> files (snd y) = files w \<and> read_only (snd y) = read_only w"
  have "?P self game_id None max_pages page_size offset all_runs pages_fetched w y"
  proof (rule get_all_runs_loop.raw_induct[where P = ?P, OF _ run])
    fix loop self game_id cache_file max_pages page_size offset and all_runs :: "'a list"
      and pages_fetched and w :: "(runs_url, 'a list) world" and y
    assume IH: "\<And>self game_id cache_file max_pages page_size offset all_runs pages_fetched w y.
        loop self game_id cache_file max_pages page_size offset all_runs pages_fetched w = Some y \<Longrightarrow>
        ?P self game_id cache_file max_pages page_size offset all_runs pages_fetched w y"
      and step: "(case get_runs self game_id offset page_size cache_file w of
          (Inl err, w1) \<Rightarrow> Some (Inl err, w1)
        | (Inr None, w1) \<Rightarrow> Some (Inr all_runs, w1)
        | (Inr (Some []), w1) \<Rightarrow> Some (Inr all_runs, w1)
        | (Inr (Some (x # xs)), w1) \<Rightarrow>
            if case max_pages of None \<Rightarrow> False | Some mp \<Rightarrow> mp \<le> pages_fetched + 1
            then Some (Inr (all_runs @ x # xs), w1)
            else loop self game_id cache_file max_pages page_size
                   (offset + used_page self page_size)
                   (all_runs @ x # xs) (pages_fetched + 1) w1) = Some y"
    show "?P self game_id cache_file max_pages page_size offset all_runs pages_fetched w y"
    proof
      assume c: "cache_file = None"
      obtain r w1 where g: "get_runs self game_id offset page_size None w = (r, w1)"
        by (cases "get_runs self game_id offset page_size None w")
      then have w1: "files w1 = files w \<and> read_only w1 = read_only w" by (rule get_runs_no_cache)
      show "files (snd y) = files w \<and> read_only (snd y) = read_only w"
      proof (cases r)
        case (Inl err)
        with step g c w1 show ?thesis by auto
      next
        case (Inr page)
        show ?thesis
        proof (cases page)
          case None
          with step g c Inr w1 show ?thesis by auto
        next
          case (Some p)
          show ?thesis
          proof (cases p)
            case Nil
            with step g c Inr Some w1 show ?thesis by auto
          next
            case (Cons x xs)
            show ?thesis
            proof (cases "case max_pages of None \<Rightarrow> False | Some mp \<Rightarrow> mp \<le> pages_fetched + 1")
              case True
              with step g c Inr Some Cons w1 show ?thesis by auto
            next
              case False
              with step g c Inr Some Cons
              have "loop self game_id cache_file max_pages page_size
                     (offset + used_page self page_size)
                     (all_runs @ x # xs) (pages_fetched + 1) w1 = Some y"
                by simp
              from IH[OF this] c w1 show ?thesis by simp
            qed
          qed
        qed
      qed
    qed
  qed
  then show ?thesis by simp
qed

lemma get_all_runs_no_cache:
  "get_all_runs self game_id None max_pages page_size w = Some (res, w') \<Longrightarrow>
   files w' = files w \<and> read_only w' = read_only w"
  unfolding get_all_runs_def by (drule get_all_runs_loop_no_cache) simp

subsection \<open>The identity-keyed dictionary\<close>

lemma map_of_dict_setitem: "map_of (dict_setitem k v d) = (map_of d)(k \<mapsto> v)"
  by (induction d) (auto simp: fun_eq_iff)

lemma keys_dict_setitem: "fst ` set (dict_setitem k v d) = insert k (fst ` set d)"
proof (induction d)
  case Nil
  then show ?case by simp
next
  case (Cons p d)
  obtain k' v' where p: "p = (k', v')" by (cases p)
  show ?case
  proof (cases "k' = k")
    case True
    with p show ?thesis by simp
  next
    case False
    with p Cons show ?thesis by (simp add: insert_commute)
  qed
qed

lemma distinct_dict_setitem:
  "distinct (map fst d) \<Longrightarrow> distinct (map fst (dict_setitem k v d))"
  by (induction d) (auto simp: keys_dict_setitem)

lemma dict_setitem_new: "k \<notin> fst ` set d \<Longrightarrow> dict_setitem k v d = d @ [(k, v)]"
  by (induction d) auto

lemma find_app:
  "List.find P (xs @ ys) = (case List.find P xs of None \<Rightarrow> List.find P ys | Some x \<Rightarrow> Some x)"
  by (induction xs) simp_all

lemma find_SomeD: "List.find P xs = Some x \<Longrightarrow> P x \<and> x \<in> set xs"
  by (induction xs) (auto split: if_splits)

lemma last_with_id_Cons:
  "last_with_id (x # xs) k =
     (case last_with_id xs k of Some r \<Rightarrow> Some r | None \<Rightarrow> if run_id x = k then Some x else None)"
  by (simp add: last_with_id_def find_app split: option.splits)

lemma last_with_id_append:
  "last_with_id (xs @ ys) k =
     (case last_with_id ys k of Some r \<Rightarrow> Some r | None \<Rightarrow> last_with_id xs k)"
  by (simp add: last_with_id_def find_app split: option.splits)

lemma last_with_id_Some: "last_with_id xs k = Some r \<Longrightarrow> run_id r = k \<and> r \<in> set xs"
  unfolding last_with_id_def by (drule find_SomeD) simp

lemma map_of_fold_setitem:
  "map_of (fold (\<lambda>run d. dict_setitem (run_id run) run d) xs d) k =
     (case last_with_id xs k of Some r \<Rightarrow> Some r | None \<Rightarrow> map_of d k)"
proof (induction xs arbitrary: d)
  case Nil
  then show ?case by (simp add: last_with_id_def)
next
  case (Cons x xs)
  show ?case
    by (simp add: Cons.IH map_of_dict_setitem last_with_id_Cons split: option.splits)
qed

lemma distinct_fold_setitem:
  "distinct (map fst d) \<Longrightarrow>
   distinct (map fst (fold (\<lambda>run d. dict_setitem (run_id run) run d) xs d))"
  by (induction xs arbitrary: d) (simp_all add: distinct_dict_setitem)

text \<open>The dictionary holds, under each identity, the last record of the list with that
  identity.\<close>

lemma map_of_dict_by_id: "map_of (dict_by_id xs) k = last_with_id xs k"
  by (simp add: dict_by_id_def map_of_fold_setitem split: option.splits)

lemma distinct_dict_by_id: "distinct (map fst (dict_by_id xs))"
  by (simp add: dict_by_id_def distinct_fold_setitem)

lemma dict_by_id_entry: "(k, r) \<in> set (dict_by_id xs) \<longleftrightarrow> last_with_id xs k = Some r"
  using map_of_eq_Some_iff[OF distinct_dict_by_id, of xs k r] by (simp add: map_of_dict_by_id)

lemma dict_by_id_keys: "map fst (dict_by_id xs) = map run_id (dict_values (dict_by_id xs))"
proof -
  have "\<forall>p\<in>set (dict_by_id xs). fst p = run_id (snd p)"
    using dict_by_id_entry[of _ _ xs] last_with_id_Some by fastforce
  then show ?thesis by (simp add: dict_values_def)
qed

lemma set_dict_values: "r \<in> set (dict_values (dict_by_id xs)) \<longleftrightarrow> last_with_id xs (run_id r) = Some r"
proof
  assume "r \<in> set (dict_values (dict_by_id xs))"
  then obtain k where "(k, r) \<in> set (dict_by_id xs)" by (auto simp: dict_values_def)
  then have l: "last_with_id xs k = Some r" by (simp add: dict_by_id_entry)
  with last_with_id_Some[OF l] show "last_with_id xs (run_id r) = Some r" by simp
next
  assume "last_with_id xs (run_id r) = Some r"
  then have "(run_id r, r) \<in> set (dict_by_id xs)" by (simp add: dict_by_id_entry)
  then show "r \<in> set (dict_values (dict_by_id xs))" by (force simp: dict_values_def)
qed

lemma distinct_dict_values: "distinct (map run_id (dict_values (dict_by_id xs)))"
  using distinct_dict_by_id[of xs] by (simp add: dict_by_id_keys)

lemma fold_setitem_distinct:
  "distinct (map fst d @ map run_id xs) \<Longrightarrow>
   fold (\<lambda>run d. dict_setitem (run_id run) run d) xs d = d @ map (\<lambda>r. (run_id r, r)) xs"
proof (induction xs arbitrary: d)
  case Nil
  then show ?case by simp
next
  case (Cons x xs)
  from Cons.prems have new: "run_id x \<notin> fst ` set d" by auto
  from Cons.prems have "distinct (map fst (d @ [(run_id x, x)]) @ map run_id xs)" by auto
  from Cons.IH[OF this] new show ?case by (simp add: dict_setitem_new)
qed

text \<open>Records with distinct identities pass through the dictionary unchanged, in their
  order.\<close>

lemma dict_values_distinct: "distinct (map run_id xs) \<Longrightarrow> dict_values (dict_by_id xs) = xs"
  by (simp add: dict_by_id_def dict_values_def fold_setitem_distinct comp_def)

subsection \<open>The verified-run repository\<close>

text \<open>The three ways \<open>fetch_verified_runs\<close> ends, and the cache it leaves, in terms of the
  outcome of the collection.\<close>

lemma fetch_verified_runs_unfold:
  assumes "get_all_runs default_client GAME_ID None None None w = Some (fetched, w1)"
    and "existing_runs = safe_read_json CACHE_FILE [] w"
    and "fetched_runs = (case fetched of Inl _ \<Rightarrow> [] | Inr runs \<Rightarrow> runs)"
    and "verified_runs = filter is_verified (dict_values (dict_by_id (existing_runs @ fetched_runs)))"
  shows "fetch_verified_runs w =
     Some (if verified_runs = [] \<and> existing_runs = []
           then Inl (No_verified_runs (case fetched of Inl e \<Rightarrow> Some e | Inr _ \<Rightarrow> None))
           else if verified_runs = [] then Inr existing_runs
           else Inr verified_runs,
           snd (safe_write_json CACHE_FILE verified_runs w1))"
  using assms by (auto simp: fetch_verified_runs_def Let_def)

lemma fetch_verified_runs_None:
  "fetch_verified_runs w = None \<longleftrightarrow> get_all_runs default_client GAME_ID None None None w = None"
  by (auto simp: fetch_verified_runs_def Let_def split: option.splits)

lemma cache_after_write:
  assumes "files w1 = files w" "read_only w1 = read_only w"
  shows "files (snd (safe_write_json CACHE_FILE data w1)) CACHE_FILE =
           (if read_only w CACHE_FILE then files w CACHE_FILE else Some (Json data))"
  using assms by (simp add: safe_write_json_def write_json_def)

lemma fetch_verified_runs_cache:
  assumes g: "get_all_runs default_client GAME_ID None None None w = Some (fetched, w1)"
    and r: "fetch_verified_runs w = Some (res, w2)"
  shows "files w2 CACHE_FILE =
     (if read_only w CACHE_FILE then files w CACHE_FILE
      else Some (Json (filter is_verified (dict_values (dict_by_id
             (safe_read_json CACHE_FILE [] w @ (case fetched of Inl _ \<Rightarrow> [] | Inr runs \<Rightarrow> runs)))))))"
proof -
  from get_all_runs_no_cache[OF g] have f: "files w1 = files w" "read_only w1 = read_only w"
    by simp_all
  let ?v = "filter is_verified (dict_values (dict_by_id
             (safe_read_json CACHE_FILE [] w @ (case fetched of Inl _ \<Rightarrow> [] | Inr runs \<Rightarrow> runs))))"
  from r have "w2 = snd (safe_write_json CACHE_FILE ?v w1)"
    unfolding fetch_verified_runs_unfold[OF g refl refl refl] by simp
  then show ?thesis using cache_after_write[OF f] by simp
qed

text \<open>C3. Whatever the cache held and whatever the collection returned (a failed
  collection counts as no record), the dictionary of the merge holds under each
  identity the last fetched record with that identity and, when none was fetched, the
  last cached one. The list written to the cache has distinct identities and consists
  of exactly the records of the dictionary whose status is \<open>verified\<close>; it replaces the
  content of the cache file, also when it is empty, unless the file cannot be opened
  for writing.\<close>

theorem repository_merge_writes_verified:
  assumes "get_all_runs default_client GAME_ID None None None w = Some (fetched, w1)"
    and "existing_runs = safe_read_json CACHE_FILE [] w"
    and "fetched_runs = (case fetched of Inl _ \<Rightarrow> [] | Inr runs \<Rightarrow> runs)"
  shows "\<exists>res w2 written. fetch_verified_runs w = Some (res, w2) \<and>
     (\<forall>k. map_of (dict_by_id (existing_runs @ fetched_runs)) k =
            (case last_with_id fetched_runs k of
               Some f \<Rightarrow> Some f
             | None \<Rightarrow> last_with_id existing_runs k)) \<and>
     written = filter is_verified (dict_values (dict_by_id (existing_runs @ fetched_runs))) \<and>
     distinct (map run_id written) \<and>
     (\<forall>r. r \<in> set written \<longleftrightarrow>
            run_status r = Some ''verified'' \<and>
            map_of (dict_by_id (existing_runs @ fetched_runs)) (run_id r) = Some r) \<and>
     files w2 CACHE_FILE =
       (if read_only w CACHE_FILE then files w CACHE_FILE else Some (Json written))"
proof -
  let ?written = "filter is_verified (dict_values (dict_by_id (existing_runs @ fetched_runs)))"
  obtain res w2 where r: "fetch_verified_runs w = Some (res, w2)"
    using fetch_verified_runs_unfold[OF assms(1) refl refl refl] by blast
  have m: "\<forall>k. map_of (dict_by_id (existing_runs @ fetched_runs)) k =
            (case last_with_id fetched_runs k of
               Some f \<Rightarrow> Some f
             | None \<Rightarrow> last_with_id existing_runs k)"
    by (simp add: map_of_dict_by_id last_with_id_append)
  have d: "distinct (map run_id ?written)"
    using distinct_dict_values by (rule distinct_map_filter)
  have s: "\<forall>r. r \<in> set ?written \<longleftrightarrow>
            run_status r = Some ''verified'' \<and>
            map_of (dict_by_id (existing_runs @ fetched_runs)) (run_id r) = Some r"
    by (auto simp: set_dict_values map_of_dict_by_id is_verified_def)
  have c: "files w2 CACHE_FILE =
       (if read_only w CACHE_FILE then files w CACHE_FILE else Some (Json ?written))"
    using fetch_verified_runs_cache[OF assms(1) r] assms(2,3) by simp
  from r m d s c show ?thesis by blast
qed

lemma down_get_all_runs:
  "get_all_runs default_client GAME_ID None None None (fresh_world down_server disk) =
   Some (Inl (Fetch_failed (Runs_url ''https://www.speedrun.com/api/v1'' GAME_ID 200 0) (Some No_response)),
         (fresh_world down_server disk)
           \<lparr>sent := 3,
            events := [Get (Runs_url ''https://www.speedrun.com/api/v1'' GAME_ID 200 0), Sleep 2,
                       Get (Runs_url ''https://www.speedrun.com/api/v1'' GAME_ID 200 0), Sleep 4,
                       Get (Runs_url ''https://www.speedrun.com/api/v1'' GAME_ID 200 0), Sleep 6]\<rparr>)"
  unfolding get_all_runs_def
  apply (subst get_all_runs_loop.simps)
  unfolding get_runs_def fetch_api_cached_def three_attempts Let_def
  by (simp add: used_page_def default_client_def fresh_world_def down_server_def http_get_def sleep_def)

lemma scenario_get_all_runs:
  "get_all_runs default_client GAME_ID None None None (fresh_world scenario_server disk) =
   Some (Inr [fresh_r1, rejected_r2],
         (fresh_world scenario_server disk)
           \<lparr>sent := 2,
            events := [Get (Runs_url ''https://www.speedrun.com/api/v1'' GAME_ID 200 0),
                       Get (Runs_url ''https://www.speedrun.com/api/v1'' GAME_ID 200 200)]\<rparr>)"
  unfolding get_all_runs_def
  apply (subst get_all_runs_loop.simps)
  apply (subst get_all_runs_loop.simps)
  unfolding get_runs_def fetch_api_cached_def three_attempts Let_def
  by (simp add: used_page_def default_client_def fresh_world_def scenario_server_def http_get_def sleep_def)

lemma read_cache_disk [simp]:
  "safe_read_json CACHE_FILE [] (fresh_world srv cache_disk) = [cached_r1]"
  "safe_read_json CACHE_FILE [] (fresh_world srv Map.empty) = []"
  by (simp_all add: safe_read_json_def fresh_world_def cache_disk_def)

lemma example_runs [simp]:
  "run_id cached_r1 = ''r1''" "run_id fresh_r1 = ''r1''" "run_id rejected_r2 = ''r2''"
  "is_verified cached_r1" "is_verified fresh_r1" "\<not> is_verified rejected_r2"
  by (simp_all add: cached_r1_def fresh_r1_def rejected_r2_def guest_run_def is_verified_def)

lemma scenario_written:
  "filter is_verified (dict_values (dict_by_id ([cached_r1] @ [fresh_r1, rejected_r2]))) = [fresh_r1]"
  by (simp add: dict_by_id_def dict_values_def)

theorem repository_merge_writes_verified_witness:
  "get_all_runs default_client GAME_ID None None None (fresh_world scenario_server cache_disk) =
     Some (Inr [fresh_r1, rejected_r2],
           (fresh_world scenario_server cache_disk)
             \<lparr>sent := 2,
              events := [Get (Runs_url ''https://www.speedrun.com/api/v1'' GAME_ID 200 0),
                         Get (Runs_url ''https://www.speedrun.com/api/v1'' GAME_ID 200 200)]\<rparr>) \<and>
   [cached_r1] = safe_read_json CACHE_FILE [] (fresh_world scenario_server cache_disk) \<and>
   (\<exists>res w2. fetch_verified_runs (fresh_world scenario_server cache_disk) = Some (res, w2) \<and>
      map_of (dict_by_id ([cached_r1] @ [fresh_r1, rejected_r2])) ''r1'' = Some fresh_r1 \<and>
      files w2 CACHE_FILE = Some (Json [fresh_r1]))"
proof -
  let ?w = "fresh_world scenario_server cache_disk"
  note g = scenario_get_all_runs[of cache_disk]
  have e: "[cached_r1] = safe_read_json CACHE_FILE [] ?w" by simp
  have f: "[fresh_r1, rejected_r2] =
           (case Inr [fresh_r1, rejected_r2] :: runs_url error + real raw_run list of
              Inl _ \<Rightarrow> [] | Inr runs \<Rightarrow> runs)"
    by simp
  from repository_merge_writes_verified[OF g e f] obtain res w2 written where
    r: "fetch_verified_runs ?w = Some (res, w2)"
    and m: "\<forall>k. map_of (dict_by_id ([cached_r1] @ [fresh_r1, rejected_r2])) k =
            (case last_with_id [fresh_r1, rejected_r2] k of
               Some f \<Rightarrow> Some f
             | None \<Rightarrow> last_with_id [cached_r1] k)"
    and w: "written = filter is_verified (dict_values (dict_by_id ([cached_r1] @ [fresh_r1, rejected_r2])))"
    and c: "files w2 CACHE_FILE =
       (if read_only ?w CACHE_FILE then files ?w CACHE_FILE else Some (Json written))"
    by blast
  from w have "written = [fresh_r1]" by (simp only: scenario_written)
  with c have c': "files w2 CACHE_FILE = Some (Json [fresh_r1])" by (simp add: fresh_world_def)
  from m have m': "map_of (dict_by_id ([cached_r1] @ [fresh_r1, rejected_r2])) ''r1'' = Some fresh_r1"
    by (simp add: last_with_id_def)
  from r m' c' have h: "\<exists>res w2. fetch_verified_runs ?w = Some (res, w2) \<and>
      map_of (dict_by_id ([cached_r1] @ [fresh_r1, rejected_r2])) ''r1'' = Some fresh_r1 \<and>
      files w2 CACHE_FILE = Some (Json [fresh_r1])"
    by blast
  show ?thesis by (intro conjI g e h)
qed

lemma dict_by_id_Nil [simp]: "dict_by_id [] = []"
  by (simp add: dict_by_id_def)

lemma dict_values_Nil [simp]: "dict_values [] = []"
  by (simp add: dict_values_def)

lemma safe_read_json_empty:
  "safe_read_json path [] w = [] \<longleftrightarrow>
   files w path = None \<or> files w path = Some Corrupt \<or> files w path = Some (Json [])"
  by (auto simp: safe_read_json_def split: option.splits disk_file.splits)

lemma no_verified_value:
  "filter is_verified (dict_values (dict_by_id xs)) = [] \<longleftrightarrow>
   (\<forall>r. last_with_id xs (run_id r) = Some r \<longrightarrow> run_status r \<noteq> Some ''verified'')"
  by (auto simp: filter_empty_conv set_dict_values is_verified_def)

text \<open>C4, as the code has it. \<open>fetch_verified_runs\<close> raises only
  \<open>RuntimeError("Failed to obtain verified runs ...")\<close>, and only when the cache file is
  absent, unreadable or holds the empty list, and the last fetched record of every
  identity is not verified (so no fetched record is verified when the identities of the
  fetched records are distinct). When the cache file is absent, unreadable or holds the
  empty list and the collection raises, \<open>fetch_verified_runs\<close> raises, and the error
  carries the error of the collection.\<close>

theorem no_verified_runs_only_when_both_empty:
  "(\<forall>e w2. fetch_verified_runs w = Some (Inl e, w2) \<longrightarrow>
      (\<exists>fetched w1 fetched_runs.
         get_all_runs default_client GAME_ID None None None w = Some (fetched, w1) \<and>
         fetched_runs = (case fetched of Inl _ \<Rightarrow> [] | Inr runs \<Rightarrow> runs) \<and>
         e = No_verified_runs (case fetched of Inl err \<Rightarrow> Some err | Inr _ \<Rightarrow> None) \<and>
         (files w CACHE_FILE = None \<or> files w CACHE_FILE = Some Corrupt \<or>
          files w CACHE_FILE = Some (Json [])) \<and>
         (\<forall>r. last_with_id fetched_runs (run_id r) = Some r \<longrightarrow>
              run_status r \<noteq> Some ''verified'') \<and>
         (distinct (map run_id fetched_runs) \<longrightarrow>
            (\<forall>r\<in>set fetched_runs. run_status r \<noteq> Some ''verified'')))) \<and>
   (\<forall>err w1. get_all_runs default_client GAME_ID None None None w = Some (Inl err, w1) \<and>
        (files w CACHE_FILE = None \<or> files w CACHE_FILE = Some Corrupt \<or>
         files w CACHE_FILE = Some (Json [])) \<longrightarrow>
      (\<exists>w2. fetch_verified_runs w = Some (Inl (No_verified_runs (Some err)), w2)))"
proof (intro conjI allI impI)
  fix e w2
  assume r: "fetch_verified_runs w = Some (Inl e, w2)"
  then have "get_all_runs default_client GAME_ID None None None w \<noteq> None"
    using fetch_verified_runs_None[of w] by auto
  then obtain fetched w1 where
    g: "get_all_runs default_client GAME_ID None None None w = Some (fetched, w1)" by auto
  let ?existing = "safe_read_json CACHE_FILE [] w"
  let ?fetched = "case fetched of Inl _ \<Rightarrow> [] | Inr runs \<Rightarrow> runs"
  let ?verified = "filter is_verified (dict_values (dict_by_id (?existing @ ?fetched)))"
  from r have c: "?verified = [] \<and> ?existing = []"
    and e: "e = No_verified_runs (case fetched of Inl err \<Rightarrow> Some err | Inr _ \<Rightarrow> None)"
    unfolding fetch_verified_runs_unfold[OF g refl refl refl] by (auto split: if_splits)
  from c have x: "?existing = []" by (rule conjunct2)
  then have f: "files w CACHE_FILE = None \<or> files w CACHE_FILE = Some Corrupt \<or>
          files w CACHE_FILE = Some (Json [])"
    by (simp add: safe_read_json_empty)
  from c x have v: "filter is_verified (dict_values (dict_by_id ?fetched)) = []" by simp
  then have l: "\<forall>r. last_with_id ?fetched (run_id r) = Some r \<longrightarrow>
              run_status r \<noteq> Some ''verified''"
    by (simp only: no_verified_value)
  have d: "distinct (map run_id ?fetched) \<longrightarrow> (\<forall>r\<in>set ?fetched. run_status r \<noteq> Some ''verified'')"
  proof
    assume "distinct (map run_id ?fetched)"
    then have "dict_values (dict_by_id ?fetched) = ?fetched" by (rule dict_values_distinct)
    with v have "filter is_verified ?fetched = []" by simp
    then show "\<forall>r\<in>set ?fetched. run_status r \<noteq> Some ''verified''"
      by (simp add: filter_empty_conv is_verified_def)
  qed
  from g e f l d show "\<exists>fetched w1 fetched_runs.
         get_all_runs default_client GAME_ID None None None w = Some (fetched, w1) \<and>
         fetched_runs = (case fetched of Inl _ \<Rightarrow> [] | Inr runs \<Rightarrow> runs) \<and>
         e = No_verified_runs (case fetched of Inl err \<Rightarrow> Some err | Inr _ \<Rightarrow> None) \<and>
         (files w CACHE_FILE = None \<or> files w CACHE_FILE = Some Corrupt \<or>
          files w CACHE_FILE = Some (Json [])) \<and>
         (\<forall>r. last_with_id fetched_runs (run_id r) = Some r \<longrightarrow>
              run_status r \<noteq> Some ''verified'') \<and>
         (distinct (map run_id fetched_runs) \<longrightarrow>
            (\<forall>r\<in>set fetched_runs. run_status r \<noteq> Some ''verified''))"
    by blast
next
  fix err w1
  assume "get_all_runs default_client GAME_ID None None None w = Some (Inl err, w1) \<and>
        (files w CACHE_FILE = None \<or> files w CACHE_FILE = Some Corrupt \<or>
         files w CACHE_FILE = Some (Json []))"
  then have g: "get_all_runs default_client GAME_ID None None None w = Some (Inl err, w1)"
    and x: "safe_read_json CACHE_FILE [] w = []"
    by (simp_all add: safe_read_json_empty)
  show "\<exists>w2. fetch_verified_runs w = Some (Inl (No_verified_runs (Some err)), w2)"
    unfolding fetch_verified_runs_unfold[OF g refl refl refl] x by simp
qed

lemma twice_r1_get_all_runs:
  "get_all_runs default_client GAME_ID None None None (fresh_world twice_r1_server disk) =
   Some (Inr [fresh_r1, rejected_r1],
         (fresh_world twice_r1_server disk)
           \<lparr>sent := 2,
            events := [Get (Runs_url ''https://www.speedrun.com/api/v1'' GAME_ID 200 0),
                       Get (Runs_url ''https://www.speedrun.com/api/v1'' GAME_ID 200 200)]\<rparr>)"
  unfolding get_all_runs_def
  apply (subst get_all_runs_loop.simps)
  apply (subst get_all_runs_loop.simps)
  unfolding get_runs_def fetch_api_cached_def three_attempts Let_def
  by (simp add: used_page_def default_client_def fresh_world_def twice_r1_server_def http_get_def
        sleep_def)

lemma rejected_r1 [simp]:
  "run_id rejected_r1 = ''r1''" "\<not> is_verified rejected_r1"
  "run_status rejected_r1 = Some ''rejected''" "run_status fresh_r1 = Some ''verified''"
  by (simp_all add: rejected_r1_def fresh_r1_def cached_r1_def guest_run_def is_verified_def)

lemma twice_r1_raises:
  assumes "safe_read_json CACHE_FILE [] (fresh_world twice_r1_server disk) = []"
  shows "\<exists>w2. fetch_verified_runs (fresh_world twice_r1_server disk) =
           Some (Inl (No_verified_runs None), w2)"
proof -
  have "filter is_verified (dict_values (dict_by_id ([] @ [fresh_r1, rejected_r1]))) = []"
    by (simp add: dict_by_id_def dict_values_def)
  then show ?thesis
    unfolding fetch_verified_runs_unfold[OF twice_r1_get_all_runs refl refl refl] assms by simp
qed

theorem no_verified_runs_only_when_both_empty_witness:
  "(\<exists>w2. fetch_verified_runs (fresh_world twice_r1_server corrupt_disk) =
            Some (Inl (No_verified_runs None), w2)) \<and>
   files (fresh_world twice_r1_server corrupt_disk) CACHE_FILE = Some Corrupt \<and>
   last_with_id [fresh_r1, rejected_r1] ''r1'' = Some rejected_r1 \<and>
   run_status rejected_r1 \<noteq> Some ''verified'' \<and>
   get_all_runs default_client GAME_ID None None None (fresh_world down_server empty_list_disk) =
     Some (Inl (Fetch_failed (Runs_url ''https://www.speedrun.com/api/v1'' GAME_ID 200 0) (Some No_response)),
           (fresh_world down_server empty_list_disk)
             \<lparr>sent := 3,
              events := [Get (Runs_url ''https://www.speedrun.com/api/v1'' GAME_ID 200 0), Sleep 2,
                         Get (Runs_url ''https://www.speedrun.com/api/v1'' GAME_ID 200 0), Sleep 4,
                         Get (Runs_url ''https://www.speedrun.com/api/v1'' GAME_ID 200 0), Sleep 6]\<rparr>) \<and>
   files (fresh_world down_server empty_list_disk :: (runs_url, real raw_run list) world)
     CACHE_FILE = Some (Json []) \<and>
   (\<exists>w2. fetch_verified_runs (fresh_world down_server empty_list_disk) =
      Some (Inl (No_verified_runs (Some (Fetch_failed
              (Runs_url ''https://www.speedrun.com/api/v1'' GAME_ID 200 0) (Some No_response)))), w2))"
proof -
  let ?u = "fresh_world twice_r1_server corrupt_disk"
  let ?w = "fresh_world down_server empty_list_disk :: (runs_url, real raw_run list) world"
  have fu: "files ?u CACHE_FILE = Some Corrupt"
    by (simp add: fresh_world_def corrupt_disk_def)
  then have "safe_read_json CACHE_FILE [] ?u = []" by (simp add: safe_read_json_empty)
  then have a: "\<exists>w2. fetch_verified_runs ?u = Some (Inl (No_verified_runs None), w2)"
    by (rule twice_r1_raises)
  then obtain u2 where ru: "fetch_verified_runs ?u = Some (Inl (No_verified_runs None), u2)" ..
  from no_verified_runs_only_when_both_empty[of ?u, THEN conjunct1, rule_format, OF ru]
  obtain fetched w1 where
    g1: "get_all_runs default_client GAME_ID None None None ?u = Some (fetched, w1)"
    and l: "\<forall>r. last_with_id (case fetched of Inl _ \<Rightarrow> [] | Inr runs \<Rightarrow> runs) (run_id r) = Some r \<longrightarrow>
              run_status r \<noteq> Some ''verified''"
    by blast
  from g1 have "fetched = Inr [fresh_r1, rejected_r1]"
    by (simp add: twice_r1_get_all_runs)
  with l have "last_with_id [fresh_r1, rejected_r1] (run_id rejected_r1) = Some rejected_r1 \<longrightarrow>
      run_status rejected_r1 \<noteq> Some ''verified''"
    by simp
  moreover have k: "last_with_id [fresh_r1, rejected_r1] ''r1'' = Some rejected_r1"
    by (simp add: last_with_id_def)
  ultimately have n: "run_status rejected_r1 \<noteq> Some ''verified''" by simp
  note g = down_get_all_runs[of empty_list_disk]
  have fw: "files ?w CACHE_FILE = Some (Json [])"
    by (simp add: fresh_world_def empty_list_disk_def)
  then have x: "files ?w CACHE_FILE = None \<or> files ?w CACHE_FILE = Some Corrupt \<or>
        files ?w CACHE_FILE = Some (Json [])" by simp
  from no_verified_runs_only_when_both_empty[of ?w, THEN conjunct2, rule_format, OF conjI[OF g x]]
  have h: "\<exists>w2. fetch_verified_runs ?w =
      Some (Inl (No_verified_runs (Some (Fetch_failed
              (Runs_url ''https://www.speedrun.com/api/v1'' GAME_ID 200 0) (Some No_response)))), w2)" .
  show ?thesis by (intro conjI a fu k n g fw h)
qed

text \<open>A fetch that brings a verified record and still ends in the error: the cache is
  empty and the page holds \<open>r1\<close> twice, verified and then rejected. Under the identity
  \<open>r1\<close> the dictionary keeps the rejected record, so no verified record is left.\<close>

theorem verified_record_fetched_counterexample:
  "get_all_runs default_client GAME_ID None None None (fresh_world twice_r1_server Map.empty) =
     Some (Inr [fresh_r1, rejected_r1],
           (fresh_world twice_r1_server Map.empty)
             \<lparr>sent := 2,
              events := [Get (Runs_url ''https://www.speedrun.com/api/v1'' GAME_ID 200 0),
                         Get (Runs_url ''https://www.speedrun.com/api/v1'' GAME_ID 200 200)]\<rparr>) \<and>
   run_status fresh_r1 = Some ''verified'' \<and>
   filter is_verified [fresh_r1, rejected_r1] = [fresh_r1] \<and>
   (\<exists>w2. fetch_verified_runs (fresh_world twice_r1_server Map.empty) =
           Some (Inl (No_verified_runs None), w2))"
proof -
  have "safe_read_json CACHE_FILE [] (fresh_world twice_r1_server Map.empty) = []" by simp
  then have a: "\<exists>w2. fetch_verified_runs (fresh_world twice_r1_server Map.empty) =
           Some (Inl (No_verified_runs None), w2)"
    by (rule twice_r1_raises)
  have b: "filter is_verified [fresh_r1, rejected_r1] = [fresh_r1]" by simp
  have c: "run_status fresh_r1 = Some ''verified''" by simp
  show ?thesis by (intro conjI twice_r1_get_all_runs a b c)
qed

lemma safe_read_json_nonempty:
  "safe_read_json path [] w = xs \<Longrightarrow> xs \<noteq> [] \<Longrightarrow> files w path = Some (Json xs)"
  by (auto simp: safe_read_json_def split: option.splits disk_file.splits)

text \<open>C5. When the collection raises and the cache holds a non-empty list of verified
  records with distinct identities, \<open>fetch_verified_runs\<close> does not raise: it returns
  that list, the same records in the same order, and the cache file holds the same list
  afterwards.\<close>

theorem cached_runs_returned_on_fetch_error:
  assumes "get_all_runs default_client GAME_ID None None None w = Some (Inl err, w1)"
    and "safe_read_json CACHE_FILE [] w = existing_runs"
    and "existing_runs \<noteq> []"
    and "\<forall>r\<in>set existing_runs. is_verified r"
    and "distinct (map run_id existing_runs)"
  shows "\<exists>w2. fetch_verified_runs w = Some (Inr existing_runs, w2) \<and>
              files w2 CACHE_FILE = Some (Json existing_runs) \<and>
              files w CACHE_FILE = Some (Json existing_runs)"
proof -
  have v: "filter is_verified (dict_values (dict_by_id (existing_runs @ []))) = existing_runs"
    using assms(4,5) by (simp add: dict_values_distinct)
  have u: "fetch_verified_runs w =
           Some (Inr existing_runs, snd (safe_write_json CACHE_FILE existing_runs w1))"
    unfolding fetch_verified_runs_unfold[OF assms(1) assms(2)[symmetric] refl refl]
    using v assms(3) by simp
  have f: "files w CACHE_FILE = Some (Json existing_runs)"
    using assms(2,3) by (rule safe_read_json_nonempty)
  have "files (snd (safe_write_json CACHE_FILE existing_runs w1)) CACHE_FILE =
          Some (Json existing_runs)"
    using fetch_verified_runs_cache[OF assms(1) u] assms(2) v f by simp
  with u f show ?thesis by blast
qed

theorem cached_runs_returned_on_fetch_error_witness:
  "get_all_runs default_client GAME_ID None None None (fresh_world down_server cache_disk) =
     Some (Inl (Fetch_failed (Runs_url ''https://www.speedrun.com/api/v1'' GAME_ID 200 0) (Some No_response)),
           (fresh_world down_server cache_disk)
             \<lparr>sent := 3,
              events := [Get (Runs_url ''https://www.speedrun.com/api/v1'' GAME_ID 200 0), Sleep 2,
                         Get (Runs_url ''https://www.speedrun.com/api/v1'' GAME_ID 200 0), Sleep 4,
                         Get (Runs_url ''https://www.speedrun.com/api/v1'' GAME_ID 200 0), Sleep 6]\<rparr>) \<and>
   safe_read_json CACHE_FILE [] (fresh_world down_server cache_disk) = [cached_r1] \<and>
   [cached_r1] \<noteq> [] \<and>
   list_all is_verified [cached_r1] \<and>
   distinct (map run_id [cached_r1]) \<and>
   (\<exists>w2. fetch_verified_runs (fresh_world down_server cache_disk) = Some (Inr [cached_r1], w2) \<and>
         files w2 CACHE_FILE = Some (Json [cached_r1]))"
proof -
  let ?w = "fresh_world down_server cache_disk"
  note g = down_get_all_runs[of cache_disk]
  have x: "safe_read_json CACHE_FILE [] ?w = [cached_r1]" by simp
  have n: "[cached_r1] \<noteq> []" by simp
  have a: "\<forall>r\<in>set [cached_r1]. is_verified r" by simp
  have d: "distinct (map run_id [cached_r1])" by simp
  from cached_runs_returned_on_fetch_error[OF g x n a d]
  have h: "\<exists>w2. fetch_verified_runs ?w = Some (Inr [cached_r1], w2) \<and>
         files w2 CACHE_FILE = Some (Json [cached_r1])"
    by blast
  have l: "list_all is_verified [cached_r1]" by simp
  show ?thesis by (intro conjI g x n l d h)
qed

text \<open>C10. The list is written before the test that raises: whenever
  \<open>fetch_verified_runs\<close> raises, the cache file has been overwritten with the empty
  list, whatever it was before (absent, unreadable or empty), unless the file cannot be
  opened for writing.\<close>

theorem failed_fetch_overwrites_cache:
  assumes "fetch_verified_runs w = Some (Inl e, w2)"
  shows "files w2 CACHE_FILE =
           (if read_only w CACHE_FILE then files w CACHE_FILE else Some (Json []))"
proof -
  from assms have "get_all_runs default_client GAME_ID None None None w \<noteq> None"
    using fetch_verified_runs_None[of w] by auto
  then obtain fetched w1 where
    g: "get_all_runs default_client GAME_ID None None None w = Some (fetched, w1)" by auto
  let ?existing = "safe_read_json CACHE_FILE [] w"
  let ?fetched = "case fetched of Inl _ \<Rightarrow> [] | Inr runs \<Rightarrow> runs"
  let ?verified = "filter is_verified (dict_values (dict_by_id (?existing @ ?fetched)))"
  from assms have "?verified = []"
    unfolding fetch_verified_runs_unfold[OF g refl refl refl] by (auto split: if_splits)
  with fetch_verified_runs_cache[OF g assms] show ?thesis by simp
qed

theorem failed_fetch_overwrites_cache_witness:
  "(\<exists>w2. fetch_verified_runs (fresh_world down_server Map.empty :: (runs_url, real raw_run list) world) =
      Some (Inl (No_verified_runs (Some (Fetch_failed
              (Runs_url ''https://www.speedrun.com/api/v1'' GAME_ID 200 0) (Some No_response)))), w2) \<and>
      files w2 CACHE_FILE = Some (Json [])) \<and>
   files (fresh_world down_server Map.empty :: (runs_url, real raw_run list) world) CACHE_FILE = None"
proof -
  let ?w = "fresh_world down_server Map.empty :: (runs_url, real raw_run list) world"
  let ?e = "No_verified_runs (Some (Fetch_failed
              (Runs_url ''https://www.speedrun.com/api/v1'' GAME_ID 200 0) (Some No_response)))"
  note g = down_get_all_runs[of "Map.empty :: string \<Rightarrow> real raw_run list disk_file option"]
  have x: "safe_read_json CACHE_FILE [] ?w = []" by simp
  obtain w2 where r: "fetch_verified_runs ?w = Some (Inl ?e, w2)"
    unfolding fetch_verified_runs_unfold[OF g refl refl refl] x by simp
  from failed_fetch_overwrites_cache[OF r] have "files w2 CACHE_FILE = Some (Json [])"
    by (simp add: fresh_world_def)
  with r have h: "\<exists>w2. fetch_verified_runs ?w = Some (Inl ?e, w2) \<and>
      files w2 CACHE_FILE = Some (Json [])" by blast
  have n: "files ?w CACHE_FILE = None" by (simp add: fresh_world_def)
  show ?thesis by (intro conjI h n)
qed

subsection \<open>The collector with a page size of 0\<close>

text \<open>\<open>get_runs\<close> treats a page size of 0 like no page size: the request asks for the
  client's page size.\<close>

lemma get_runs_zero_max:
  "get_runs self game_id offset (Some 0) cache_file w = get_runs self game_id offset None cache_file w"
  by (simp add: get_runs_def)

lemma paged_get_runs:
  assumes "server w = paged_server"
  shows "\<exists>w1. get_runs default_client game_id 0 (Some 0) None w = (Inr (Some [''r1'']), w1) \<and>
              server w1 = paged_server"
  unfolding get_runs_def fetch_api_cached_def three_attempts Let_def
  using assms by (simp add: default_client_def paged_server_def http_get_def)

text \<open>C8, at the page size 0 with the client's page size 200, against a server with one
  run at offset 0 and another at offset 200: both requests ask for 200 runs at offset 0,
  and the first page is returned twice. The offset advances by 0, not by the page size
  of the request.\<close>

theorem get_all_runs_zero_page_size:
  "get_all_runs default_client GAME_ID None (Some 2) (Some 0) (fresh_world paged_server Map.empty) =
   Some (Inr [''r1'', ''r1''],
         (fresh_world paged_server Map.empty)
           \<lparr>sent := 2,
            events := [Get (Runs_url ''https://www.speedrun.com/api/v1'' GAME_ID 200 0),
                       Get (Runs_url ''https://www.speedrun.com/api/v1'' GAME_ID 200 0)]\<rparr>)"
  unfolding get_all_runs_def
  apply (subst get_all_runs_loop.simps)
  apply (subst get_all_runs_loop.simps)
  unfolding get_runs_def fetch_api_cached_def three_attempts Let_def
  by (simp add: used_page_def default_client_def fresh_world_def paged_server_def http_get_def sleep_def)

text \<open>The same call without a page size advances by the client's page size.\<close>

lemma get_all_runs_default_page_size:
  "get_all_runs default_client GAME_ID None (Some 2) None (fresh_world paged_server Map.empty) =
   Some (Inr [''r1'', ''r2''],
         (fresh_world paged_server Map.empty)
           \<lparr>sent := 2,
            events := [Get (Runs_url ''https://www.speedrun.com/api/v1'' GAME_ID 200 0),
                       Get (Runs_url ''https://www.speedrun.com/api/v1'' GAME_ID 200 200)]\<rparr>)"
  unfolding get_all_runs_def
  apply (subst get_all_runs_loop.simps)
  apply (subst get_all_runs_loop.simps)
  unfolding get_runs_def fetch_api_cached_def three_attempts Let_def
  by (simp add: used_page_def default_client_def fresh_world_def paged_server_def http_get_def sleep_def)

text \<open>Without a bound on the pages, the call with page size 0 never returns against
  that server.\<close>

lemma loop_never_returns_at_page_size_zero:
  assumes "server w = paged_server"
  shows "get_all_runs_loop default_client game_id None None (Some 0) 0 all_runs pages_fetched w = None"
proof (rule ccontr)
  assume "get_all_runs_loop default_client game_id None None (Some 0) 0 all_runs pages_fetched w \<noteq> None"
  then obtain y where
    run: "get_all_runs_loop default_client game_id None None (Some 0) 0 all_runs pages_fetched w = Some y"
    by auto
  let ?P = "\<lambda>(self :: api_client) (game_id :: string) (cache_file :: string option)
              (max_pages :: int option) (page_size :: int option) (offset :: int)
              (all_runs :: string list) (pages_fetched :: int) (w :: (runs_url, string list) world)
              (y :: (runs_url error + string list) \<times> (runs_url, string list) world).
              \<not> (self = default_client \<and> cache_file = None \<and> max_pages = None \<and>
                 page_size = Some 0 \<and> offset = 0 \<and> server w = paged_server)"
  have "?P default_client game_id None None (Some 0) 0 all_runs pages_fetched w y"
  proof (rule get_all_runs_loop.raw_induct[where P = ?P, OF _ run])
    fix loop self game_id cache_file max_pages page_size offset and all_runs :: "string list"
      and pages_fetched and w :: "(runs_url, string list) world" and y
    assume IH: "\<And>self game_id cache_file max_pages page_size offset all_runs pages_fetched w y.
        loop self game_id cache_file max_pages page_size offset all_runs pages_fetched w = Some y \<Longrightarrow>
        ?P self game_id cache_file max_pages page_size offset all_runs pages_fetched w y"
      and step: "(case get_runs self game_id offset page_size cache_file w of
          (Inl err, w1) \<Rightarrow> Some (Inl err, w1)
        | (Inr None, w1) \<Rightarrow> Some (Inr all_runs, w1)
        | (Inr (Some []), w1) \<Rightarrow> Some (Inr all_runs, w1)
        | (Inr (Some (x # xs)), w1) \<Rightarrow>
            if case max_pages of None \<Rightarrow> False | Some mp \<Rightarrow> mp \<le> pages_fetched + 1
            then Some (Inr (all_runs @ x # xs), w1)
            else loop self game_id cache_file max_pages page_size
                   (offset + used_page self page_size)
                   (all_runs @ x # xs) (pages_fetched + 1) w1) = Some y"
    show "?P self game_id cache_file max_pages page_size offset all_runs pages_fetched w y"
    proof
      assume inv: "self = default_client \<and> cache_file = None \<and> max_pages = None \<and>
                 page_size = Some 0 \<and> offset = 0 \<and> server w = paged_server"
      then obtain w1 where
        g: "get_runs default_client game_id 0 (Some 0) None w = (Inr (Some [''r1'']), w1)"
        and s: "server w1 = paged_server"
        using paged_get_runs by blast
      from step inv g
      have "loop default_client game_id None None (Some 0) 0 (all_runs @ [''r1''])
              (pages_fetched + 1) w1 = Some y"
        by (simp add: used_page_def)
      from IH[OF this] s show False by simp
    qed
  qed
  with assms show False by simp
qed

lemma collection_never_returns_at_page_size_zero:
  "get_all_runs default_client GAME_ID None None (Some 0) (fresh_world paged_server Map.empty) = None"
  unfolding get_all_runs_def
  by (rule loop_never_returns_at_page_size_zero) (simp add: fresh_world_def)

subsection \<open>The collector follows the chain of requests\<close>

lemma request_chain_Suc:
  assumes "request_chain self game_id cache_file page_size step offset w (Suc n) = Some (pages, w')"
  obtains x xs w1 rest where
    "get_runs self game_id offset page_size cache_file w = (Inr (Some (x # xs)), w1)"
    "request_chain self game_id cache_file page_size step (offset + step) w1 n = Some (rest, w')"
    "pages = (x # xs) # rest"
  using assms
  by (auto split: prod.splits sum.splits option.splits list.splits)

text \<open>As long as the bound on the pages is not reached, \<open>n\<close> rounds of the loop are the
  chain of \<open>n\<close> requests that advances by \<open>used_page\<close>.\<close>

lemma get_all_runs_loop_unroll:
  assumes "request_chain self game_id cache_file page_size (used_page self page_size) offset w n =
             Some (pages, w')"
    and "\<forall>mp. max_pages = Some mp \<longrightarrow> pages_fetched + int n < mp"
  shows "get_all_runs_loop self game_id cache_file max_pages page_size offset all_runs pages_fetched w =
         get_all_runs_loop self game_id cache_file max_pages page_size
           (offset + int n * used_page self page_size) (all_runs @ concat pages)
           (pages_fetched + int n) w'"
  using assms
proof (induction n arbitrary: offset all_runs pages_fetched w pages)
  case 0
  then show ?case by simp
next
  case (Suc n)
  let ?step = "used_page self page_size"
  from Suc.prems(1) obtain x xs w1 rest where
    g: "get_runs self game_id offset page_size cache_file w = (Inr (Some (x # xs)), w1)"
    and c: "request_chain self game_id cache_file page_size ?step (offset + ?step) w1 n = Some (rest, w')"
    and p: "pages = (x # xs) # rest"
    by (rule request_chain_Suc)
  from Suc.prems(2) have b: "\<not> (case max_pages of None \<Rightarrow> False | Some mp \<Rightarrow> mp \<le> pages_fetched + 1)"
    by (auto split: option.splits)
  from Suc.prems(2) have b': "\<forall>mp. max_pages = Some mp \<longrightarrow> (pages_fetched + 1) + int n < mp"
    by auto
  have "get_all_runs_loop self game_id cache_file max_pages page_size offset all_runs pages_fetched w =
        get_all_runs_loop self game_id cache_file max_pages page_size (offset + ?step)
          (all_runs @ x # xs) (pages_fetched + 1) w1"
    by (subst get_all_runs_loop.simps) (simp add: g b)
  also have "\<dots> = get_all_runs_loop self game_id cache_file max_pages page_size
          ((offset + ?step) + int n * ?step) ((all_runs @ x # xs) @ concat rest)
          ((pages_fetched + 1) + int n) w'"
    using c b' by (rule Suc.IH)
  also have "(offset + ?step) + int n * ?step = offset + int (Suc n) * ?step"
    by (simp add: algebra_simps)
  also have "(all_runs @ x # xs) @ concat rest = all_runs @ concat pages"
    by (simp add: p)
  also have "(pages_fetched + 1) + int n = pages_fetched + int (Suc n)" by simp
  finally show ?case .
qed

text \<open>The collection ends at the first request that brings no run, and returns the
  pages before it, concatenated in the order of the requests.\<close>

lemma get_all_runs_stops_at_empty_page:
  assumes "request_chain self game_id cache_file page_size (used_page self page_size) 0 w n =
             Some (pages, w')"
    and "\<forall>mp. max_pages = Some mp \<longrightarrow> int n < mp"
    and "get_runs self game_id (int n * used_page self page_size) page_size cache_file w' = (Inr page, w'')"
    and "page = None \<or> page = Some []"
  shows "get_all_runs self game_id cache_file max_pages page_size w = Some (Inr (concat pages), w'')"
proof -
  have "get_all_runs self game_id cache_file max_pages page_size w =
        get_all_runs_loop self game_id cache_file max_pages page_size
          (0 + int n * used_page self page_size) ([] @ concat pages) (0 + int n) w'"
    unfolding get_all_runs_def using assms(1) by (rule get_all_runs_loop_unroll) (use assms(2) in simp)
  also have "\<dots> = Some (Inr (concat pages), w'')"
    using assms(3,4) by (subst get_all_runs_loop.simps) auto
  finally show ?thesis .
qed

text \<open>With a bound \<open>max_pages\<close>, the collection ends after the request that brings the
  page number \<open>max_pages\<close> (after the first page when \<open>max_pages\<close> is below 1).\<close>

lemma get_all_runs_stops_at_max_pages:
  assumes "request_chain self game_id cache_file page_size (used_page self page_size) 0 w n =
             Some (pages, w')"
    and "int n < mp"
    and "get_runs self game_id (int n * used_page self page_size) page_size cache_file w' =
           (Inr (Some (x # xs)), w'')"
    and "mp \<le> int n + 1"
  shows "get_all_runs self game_id cache_file (Some mp) page_size w =
           Some (Inr (concat pages @ x # xs), w'')"
proof -
  have "get_all_runs self game_id cache_file (Some mp) page_size w =
        get_all_runs_loop self game_id cache_file (Some mp) page_size
          (0 + int n * used_page self page_size) ([] @ concat pages) (0 + int n) w'"
    unfolding get_all_runs_def using assms(1) by (rule get_all_runs_loop_unroll) (use assms(2) in simp)
  also have "\<dots> = Some (Inr (concat pages @ x # xs), w'')"
    using assms(3,4) by (subst get_all_runs_loop.simps) simp
  finally show ?thesis .
qed

lemma get_all_runs_first_page_only:
  assumes "get_runs self game_id 0 page_size cache_file w = (Inr (Some (x # xs)), w')"
    and "mp \<le> 1"
  shows "get_all_runs self game_id cache_file (Some mp) page_size w = Some (Inr (x # xs), w')"
  unfolding get_all_runs_def using assms by (subst get_all_runs_loop.simps) simp

text \<open>An error of a request ends the collection with that error.\<close>

lemma get_all_runs_raises:
  assumes "request_chain self game_id cache_file page_size (used_page self page_size) 0 w n =
             Some (pages, w')"
    and "\<forall>mp. max_pages = Some mp \<longrightarrow> int n < mp"
    and "get_runs self game_id (int n * used_page self page_size) page_size cache_file w' = (Inl err, w'')"
  shows "get_all_runs self game_id cache_file max_pages page_size w = Some (Inl err, w'')"
proof -
  have "get_all_runs self game_id cache_file max_pages page_size w =
        get_all_runs_loop self game_id cache_file max_pages page_size
          (0 + int n * used_page self page_size) ([] @ concat pages) (0 + int n) w'"
    unfolding get_all_runs_def using assms(1) by (rule get_all_runs_loop_unroll) (use assms(2) in simp)
  also have "\<dots> = Some (Inl err, w'')"
    using assms(3) by (subst get_all_runs_loop.simps) simp
  finally show ?thesis .
qed

text \<open>The page size that a request asks for is the amount by which the offset advances,
  except for the page size 0.\<close>

lemma get_runs_asks_used_page:
  "page_size \<noteq> Some 0 \<Longrightarrow>
   get_runs self game_id offset page_size cache_file w =
   fetch_api_cached (Runs_url (client_base self) game_id (used_page self page_size) offset)
     cache_file 2 2 w"
  by (auto simp: get_runs_def used_page_def split: option.splits)

lemma get_runs_zero_asks_client_page_size:
  "get_runs self game_id offset (Some 0) cache_file w =
   fetch_api_cached (Runs_url (client_base self) game_id (client_page_size self) offset)
     cache_file 2 2 w \<and> used_page self (Some 0) = 0"
  by (simp add: get_runs_def used_page_def)

end
